theory Spec2Isabelle
  imports Complex_Main "HOL-Library.Word"
begin

unbundle bit_operations_syntax

section \<open>Python values used by the back end\<close>

text \<open>
  Python integers are unbounded and are modelled as \<open>int\<close>. A raised exception is a value:
  every fallible function returns \<open>Inl\<close> of the exception. Functions of the virtual machine
  mutate the machine before they raise, so their exceptions come with the machine as it
  was left. The errors of the package carry their message; a \<open>SemanticError\<close>'s span is
  left out, and so are the messages of Python's own exceptions.
\<close>

datatype error =
    VMRuntimeError string
  | SemanticError string
  | IndexError
  | ValueError
  | KeyError
  | AssertionError
  | RuntimeError string

definition then_do :: "('e + 'a) \<Rightarrow> ('a \<Rightarrow> 'e + 'b) \<Rightarrow> 'e + 'b" where
  "then_do m f = (case m of Inl e \<Rightarrow> Inl e | Inr x \<Rightarrow> f x)"

text \<open>\<open>xs[i]\<close>: a negative index counts from the end, anything out of range raises IndexError.\<close>

definition py_get :: "'a list \<Rightarrow> int \<Rightarrow> 'a option" where
  "py_get xs i =
     (let n = int (length xs) in
      if 0 \<le> i \<and> i < n then Some (xs ! nat i)
      else if - n \<le> i \<and> i < 0 then Some (xs ! nat (n + i))
      else None)"

text \<open>\<open>xs[i] = v\<close>, with the same index rule.\<close>

definition py_set :: "'a list \<Rightarrow> int \<Rightarrow> 'a \<Rightarrow> 'a list option" where
  "py_set xs i v =
     (let n = int (length xs) in
      if 0 \<le> i \<and> i < n then Some (xs[nat i := v])
      else if - n \<le> i \<and> i < 0 then Some (xs[nat (n + i) := v])
      else None)"

text \<open>\<open>del xs[b:]\<close>: a negative start counts from the end and is clamped at 0.\<close>

definition py_del_from :: "'a list \<Rightarrow> int \<Rightarrow> 'a list" where
  "py_del_from xs b =
     (let n = int (length xs) in
      if b < 0 then take (nat (max 0 (n + b))) xs else take (nat b) xs)"

text \<open>\<open>str(n)\<close> for an integer: decimal digits, with a leading minus sign.\<close>

definition digit_char :: "nat \<Rightarrow> char" where
  "digit_char d = ''0123456789'' ! d"

fun nat_digits :: "nat \<Rightarrow> string" where
  "nat_digits n = (if n < 10 then [digit_char n] else nat_digits (n div 10) @ [digit_char (n mod 10)])"

declare nat_digits.simps [simp del]

definition py_str :: "int \<Rightarrow> string" where
  "py_str i = (if i < 0 then CHR ''-'' # nat_digits (nat (- i)) else nat_digits (nat i))"

definition squote :: "string \<Rightarrow> string" where
  "squote s = CHR 0x27 # s @ [CHR 0x27]"

section \<open>opcodes.py\<close>

datatype OpCode =
    PUSH_CONST | LOAD_LOCAL | STORE_LOCAL | LOAD_GLOBAL | STORE_GLOBAL
  | ADD | SUB | MUL | DIV | JMP | JMP_IF_FALSE | CALL | RET | PRINT | POP | HALT

fun opcode_value :: "OpCode \<Rightarrow> int" where
  "opcode_value PUSH_CONST = 0"
| "opcode_value LOAD_LOCAL = 1"
| "opcode_value STORE_LOCAL = 2"
| "opcode_value LOAD_GLOBAL = 3"
| "opcode_value STORE_GLOBAL = 4"
| "opcode_value ADD = 5"
| "opcode_value SUB = 6"
| "opcode_value MUL = 7"
| "opcode_value DIV = 8"
| "opcode_value JMP = 9"
| "opcode_value JMP_IF_FALSE = 10"
| "opcode_value CALL = 11"
| "opcode_value RET = 12"
| "opcode_value PRINT = 13"
| "opcode_value POP = 14"
| "opcode_value HALT = 15"

text \<open>\<open>OpCode(b)\<close>: the member with that value; Python raises ValueError when there is none.\<close>

definition OpCode_of :: "int \<Rightarrow> OpCode option" where
  "OpCode_of b =
     (if b = 0 then Some PUSH_CONST else if b = 1 then Some LOAD_LOCAL
      else if b = 2 then Some STORE_LOCAL else if b = 3 then Some LOAD_GLOBAL
      else if b = 4 then Some STORE_GLOBAL else if b = 5 then Some ADD
      else if b = 6 then Some SUB else if b = 7 then Some MUL
      else if b = 8 then Some DIV else if b = 9 then Some JMP
      else if b = 10 then Some JMP_IF_FALSE else if b = 11 then Some CALL
      else if b = 12 then Some RET else if b = 13 then Some PRINT
      else if b = 14 then Some POP else if b = 15 then Some HALT
      else None)"

fun opcode_name :: "OpCode \<Rightarrow> string" where
  "opcode_name PUSH_CONST = ''PUSH_CONST''"
| "opcode_name LOAD_LOCAL = ''LOAD_LOCAL''"
| "opcode_name STORE_LOCAL = ''STORE_LOCAL''"
| "opcode_name LOAD_GLOBAL = ''LOAD_GLOBAL''"
| "opcode_name STORE_GLOBAL = ''STORE_GLOBAL''"
| "opcode_name ADD = ''ADD''"
| "opcode_name SUB = ''SUB''"
| "opcode_name MUL = ''MUL''"
| "opcode_name DIV = ''DIV''"
| "opcode_name JMP = ''JMP''"
| "opcode_name JMP_IF_FALSE = ''JMP_IF_FALSE''"
| "opcode_name CALL = ''CALL''"
| "opcode_name RET = ''RET''"
| "opcode_name PRINT = ''PRINT''"
| "opcode_name POP = ''POP''"
| "opcode_name HALT = ''HALT''"

section \<open>chunk.py\<close>

record Chunk =
  code :: "int list"
  lines :: "int list"
  constants :: "int list"

definition empty_chunk :: Chunk where
  "empty_chunk = \<lparr>code = [], lines = [], constants = []\<rparr>"

text \<open>\<open>add_constant\<close> returns the index of the appended constant and the chunk.\<close>

definition add_constant :: "int \<Rightarrow> Chunk \<Rightarrow> int \<times> Chunk" where
  "add_constant v c =
     (let c' = c\<lparr>constants := constants c @ [v]\<rparr> in (int (length (constants c')) - 1, c'))"

text \<open>\<open>Chunk.write\<close>.\<close>

definition chunk_write :: "int \<Rightarrow> int \<Rightarrow> Chunk \<Rightarrow> Chunk" where
  "chunk_write byte line c = c\<lparr>code := code c @ [byte], lines := lines c @ [line]\<rparr>"

definition write_u16 :: "int \<Rightarrow> int \<Rightarrow> Chunk \<Rightarrow> Chunk" where
  "write_u16 v line c =
     chunk_write (v AND 0xFF) line (chunk_write (drop_bit 8 v AND 0xFF) line c)"

definition patch_u16 :: "int \<Rightarrow> int \<Rightarrow> Chunk \<Rightarrow> error + Chunk" where
  "patch_u16 offset v c =
     (case py_set (code c) offset (drop_bit 8 v AND 0xFF) of
        None \<Rightarrow> Inl IndexError
      | Some code1 \<Rightarrow>
          (case py_set code1 (offset + 1) (v AND 0xFF) of
             None \<Rightarrow> Inl IndexError
           | Some code2 \<Rightarrow> Inr (c\<lparr>code := code2\<rparr>)))"

record BytecodeFunction =
  bf_name :: string
  bf_chunk :: Chunk
  bf_arity :: int
  bf_num_locals :: int

record BytecodeProgram =
  bp_functions :: "BytecodeFunction list"
  bp_globals :: "int list"
  bp_entry_index :: int

section \<open>vm.py\<close>

record CallFrame =
  cf_function :: BytecodeFunction
  cf_ip :: int
  cf_stack_base :: int

text \<open>
  The machine. \<open>vm_program\<close> is \<open>self.program\<close>, the caller's program object itself;
  \<open>vm_globals\<close> is the machine's own list, built by \<open>list(program.globals)\<close>. Lists grow to
  the right as in Python: the top of the operand stack and the current frame are the last
  elements.
\<close>

record VM =
  vm_program :: BytecodeProgram
  vm_stack :: "int list"
  vm_frames :: "CallFrame list"
  vm_globals :: "int list"
  vm_output :: "string list"

type_synonym 'a vm_result = "(error \<times> VM) + 'a"

definition VM_init :: "BytecodeProgram \<Rightarrow> VM" where
  "VM_init p = \<lparr>vm_program = p, vm_stack = [], vm_frames = [], vm_globals = bp_globals p,
                 vm_output = []\<rparr>"

text \<open>The frame the run loop works on is \<open>self.frames[-1]\<close>; it is mutated in place.\<close>

definition cur_frame :: "VM \<Rightarrow> CallFrame" where
  "cur_frame vm = last (vm_frames vm)"

definition set_ip :: "int \<Rightarrow> VM \<Rightarrow> VM" where
  "set_ip i vm = vm\<lparr>vm_frames := butlast (vm_frames vm) @ [(cur_frame vm)\<lparr>cf_ip := i\<rparr>]\<rparr>"

definition push :: "int \<Rightarrow> VM \<Rightarrow> VM" where
  "push v vm = vm\<lparr>vm_stack := vm_stack vm @ [v]\<rparr>"

text \<open>\<open>self.stack.pop()\<close> raises IndexError on an empty stack.\<close>

definition pop :: "VM \<Rightarrow> (int \<times> VM) vm_result" where
  "pop vm =
     (if vm_stack vm = [] then Inl (IndexError, vm)
      else Inr (last (vm_stack vm), vm\<lparr>vm_stack := butlast (vm_stack vm)\<rparr>))"

definition read_u16 :: "VM \<Rightarrow> (int \<times> VM) vm_result" where
  "read_u16 vm =
     (let frame = cur_frame vm; c = code (bf_chunk (cf_function frame)) in
      case py_get c (cf_ip frame) of
        None \<Rightarrow> Inl (IndexError, vm)
      | Some hi \<Rightarrow>
          (case py_get c (cf_ip frame + 1) of
             None \<Rightarrow> Inl (IndexError, vm)
           | Some lo \<Rightarrow> Inr (push_bit 8 hi OR lo, set_ip (cf_ip frame + 2) vm)))"

definition read_byte :: "VM \<Rightarrow> (int \<times> VM) vm_result" where
  "read_byte vm =
     (let frame = cur_frame vm; c = code (bf_chunk (cf_function frame)) in
      case py_get c (cf_ip frame) of
        None \<Rightarrow> Inl (IndexError, vm)
      | Some v \<Rightarrow> Inr (v, set_ip (cf_ip frame + 1) vm))"

text \<open>\<open>_binary\<close>: the right operand is popped first; the operator itself may raise.\<close>

definition binary :: "(int \<Rightarrow> int \<Rightarrow> string + int) \<Rightarrow> VM \<Rightarrow> VM vm_result" where
  "binary op vm =
     then_do (pop vm) (\<lambda>(b, vm1).
     then_do (pop vm1) (\<lambda>(a, vm2).
       case op a b of
         Inl msg \<Rightarrow> Inl (VMRuntimeError msg, vm2)
       | Inr r \<Rightarrow> Inr (push r vm2)))"

definition safe_div :: "int \<Rightarrow> int \<Rightarrow> string + int" where
  "safe_div a b = (if b = 0 then Inl ''division by zero'' else Inr (a div b))"

definition call_function :: "int \<Rightarrow> int \<Rightarrow> VM \<Rightarrow> VM vm_result" where
  "call_function func_index argc vm =
     (if func_index < 0 \<or> func_index \<ge> int (length (bp_functions (vm_program vm))) then
        Inl (VMRuntimeError (''call target '' @ py_str func_index @ '' out of range''), vm)
      else
        let function = bp_functions (vm_program vm) ! nat func_index in
        if argc \<noteq> bf_arity function then
          Inl (VMRuntimeError (''function '' @ squote (bf_name function)
                 @ '' arity mismatch: expected '' @ py_str (bf_arity function)
                 @ '', got '' @ py_str argc), vm)
        else
          let stack_base = int (length (vm_stack vm)) - argc in
          if stack_base < 0 then Inl (VMRuntimeError ''call stack underflow'', vm)
          else
            let needed = stack_base + bf_num_locals function;
                padded = vm_stack vm @ replicate (nat (needed - int (length (vm_stack vm)))) 0;
                frame = \<lparr>cf_function = function, cf_ip = 0, cf_stack_base = stack_base\<rparr>
            in Inr (vm\<lparr>vm_stack := padded, vm_frames := vm_frames vm @ [frame]\<rparr>))"

definition return_op :: "VM \<Rightarrow> VM vm_result" where
  "return_op vm =
     (if vm_frames vm = [] then Inl (VMRuntimeError ''return with empty call stack'', vm)
      else
        let frame = last (vm_frames vm);
            vm1 = vm\<lparr>vm_frames := butlast (vm_frames vm)\<rparr>
        in then_do (pop vm1) (\<lambda>(v, vm2).
             let vm3 = vm2\<lparr>vm_stack := py_del_from (vm_stack vm2) (cf_stack_base frame) @ [v]\<rparr>
             in Inr (if vm_frames vm3 = [] then vm3\<lparr>vm_stack := []\<rparr> else vm3)))"

definition store_local :: "int \<Rightarrow> VM \<Rightarrow> VM vm_result" where
  "store_local index vm =
     then_do (pop vm) (\<lambda>(v, vm1).
       let slot = cf_stack_base (cur_frame vm1) + index in
       if slot \<ge> int (length (vm_stack vm1)) then
         Inl (VMRuntimeError ''local store out of range'', vm1)
       else
         case py_set (vm_stack vm1) slot v of
           None \<Rightarrow> Inl (IndexError, vm1)
         | Some st \<Rightarrow> Inr (vm1\<lparr>vm_stack := st\<rparr>))"

definition load_local :: "int \<Rightarrow> VM \<Rightarrow> (int \<times> VM) vm_result" where
  "load_local index vm =
     (let slot = cf_stack_base (cur_frame vm) + index in
      if slot \<ge> int (length (vm_stack vm)) then
        Inl (VMRuntimeError ''local load out of range'', vm)
      else
        case py_get (vm_stack vm) slot of
          None \<Rightarrow> Inl (IndexError, vm)
        | Some v \<Rightarrow> Inr (v, vm))"

definition store_global :: "int \<Rightarrow> VM \<Rightarrow> VM vm_result" where
  "store_global index vm =
     then_do (pop vm) (\<lambda>(v, vm1).
       if index \<ge> int (length (vm_globals vm1)) then
         Inl (VMRuntimeError ''global store out of range'', vm1)
       else
         case py_set (vm_globals vm1) index v of
           None \<Rightarrow> Inl (IndexError, vm1)
         | Some g \<Rightarrow> Inr (vm1\<lparr>vm_globals := g\<rparr>))"

text \<open>
  One branch of the dispatch in \<open>run\<close>, entered after \<open>frame.ip += 1\<close>. The final
  \<open>else: raise VMRuntimeError("unknown opcode")\<close> of the source has no counterpart: the
  sixteen members are all dispatched above it.
\<close>

fun exec_op :: "OpCode \<Rightarrow> VM \<Rightarrow> VM vm_result" where
  "exec_op PUSH_CONST vm =
     then_do (read_u16 vm) (\<lambda>(const_index, vm1).
       case py_get (constants (bf_chunk (cf_function (cur_frame vm1)))) const_index of
         None \<Rightarrow> Inl (IndexError, vm1)
       | Some v \<Rightarrow> Inr (push v vm1))"
| "exec_op LOAD_LOCAL vm =
     then_do (read_u16 vm) (\<lambda>(index, vm1).
     then_do (load_local index vm1) (\<lambda>(v, vm2). Inr (push v vm2)))"
| "exec_op STORE_LOCAL vm =
     then_do (read_u16 vm) (\<lambda>(index, vm1). store_local index vm1)"
| "exec_op LOAD_GLOBAL vm =
     then_do (read_u16 vm) (\<lambda>(index, vm1).
       case py_get (vm_globals vm1) index of
         None \<Rightarrow> Inl (IndexError, vm1)
       | Some v \<Rightarrow> Inr (push v vm1))"
| "exec_op STORE_GLOBAL vm =
     then_do (read_u16 vm) (\<lambda>(index, vm1). store_global index vm1)"
| "exec_op ADD vm = binary (\<lambda>a b. Inr (a + b)) vm"
| "exec_op SUB vm = binary (\<lambda>a b. Inr (a - b)) vm"
| "exec_op MUL vm = binary (\<lambda>a b. Inr (a * b)) vm"
| "exec_op DIV vm = binary safe_div vm"
| "exec_op JMP vm =
     then_do (read_u16 vm) (\<lambda>(target, vm1). Inr (set_ip target vm1))"
| "exec_op JMP_IF_FALSE vm =
     then_do (read_u16 vm) (\<lambda>(target, vm1).
     then_do (pop vm1) (\<lambda>(v, vm2).
       Inr (if v = 0 then set_ip target vm2 else vm2)))"
| "exec_op CALL vm =
     then_do (read_u16 vm) (\<lambda>(func_index, vm1).
     then_do (read_byte vm1) (\<lambda>(argc, vm2). call_function func_index argc vm2))"
| "exec_op RET vm = return_op vm"
| "exec_op PRINT vm =
     then_do (pop vm) (\<lambda>(v, vm1). Inr (vm1\<lparr>vm_output := vm_output vm1 @ [py_str v]\<rparr>))"
| "exec_op POP vm = then_do (pop vm) (\<lambda>(v, vm1). Inr vm1)"
| "exec_op HALT vm = Inr (vm\<lparr>vm_frames := []\<rparr>)"

text \<open>One iteration of \<open>while self.frames\<close> (tracing off), for a machine with a frame.\<close>

definition step :: "VM \<Rightarrow> VM vm_result" where
  "step vm =
     (let frame = cur_frame vm; c = code (bf_chunk (cf_function frame)) in
      if cf_ip frame \<ge> int (length c) then
        Inl (VMRuntimeError ''instruction pointer out of bounds'', vm)
      else
        case py_get c (cf_ip frame) of
          None \<Rightarrow> Inl (IndexError, vm)
        | Some b \<Rightarrow>
            (case OpCode_of b of
               None \<Rightarrow> Inl (ValueError, vm)
             | Some opcode \<Rightarrow> exec_op opcode (set_ip (cf_ip frame + 1) vm)))"

text \<open>
  The loop of \<open>run\<close>, with fuel: \<open>None\<close> when the fuel runs out before the loop ends.
  \<open>HALT\<close> empties the frame list and breaks, which is the loop test failing.
\<close>

fun run_loop :: "nat \<Rightarrow> VM \<Rightarrow> VM vm_result option" where
  "run_loop fuel vm =
     (if vm_frames vm = [] then Some (Inr vm)
      else case fuel of
        0 \<Rightarrow> None
      | Suc n \<Rightarrow> (case step vm of Inl e \<Rightarrow> Some (Inl e) | Inr vm' \<Rightarrow> run_loop n vm'))"

declare run_loop.simps [simp del]

definition run :: "nat \<Rightarrow> VM \<Rightarrow> VM vm_result option" where
  "run fuel vm =
     (case call_function (bp_entry_index (vm_program vm)) 0 vm of
        Inl e \<Rightarrow> Some (Inl e)
      | Inr vm1 \<Rightarrow> run_loop fuel vm1)"

text \<open>\<open>VM(program).run()\<close>.\<close>

definition run_program :: "nat \<Rightarrow> BytecodeProgram \<Rightarrow> VM vm_result option" where
  "run_program fuel p = run fuel (VM_init p)"

text \<open>The machine a run ends with, and the exception it ended with, if any.\<close>

definition final_vm :: "VM vm_result \<Rightarrow> VM" where
  "final_vm r = (case r of Inl (e, vm) \<Rightarrow> vm | Inr vm \<Rightarrow> vm)"

definition raised :: "VM vm_result \<Rightarrow> error option" where
  "raised r = (case r of Inl (e, vm) \<Rightarrow> Some e | Inr vm \<Rightarrow> None)"

text \<open>
  The run loop is about to fetch opcode \<open>oc\<close>: there is a frame, its instruction pointer
  passes the bounds test, and the byte there is the opcode's value.
\<close>

definition fetched :: "VM \<Rightarrow> OpCode \<Rightarrow> bool" where
  "fetched vm oc \<longleftrightarrow>
     vm_frames vm \<noteq> [] \<and>
     cf_ip (cur_frame vm) < int (length (code (bf_chunk (cf_function (cur_frame vm))))) \<and>
     py_get (code (bf_chunk (cf_function (cur_frame vm)))) (cf_ip (cur_frame vm))
       = Some (opcode_value oc)"

text \<open>
  The first \<open>n\<close> iterations of the loop of \<open>run\<close>: the machine after them, or the exception
  one of them raised. As in \<open>run_loop\<close>, an iteration is made only while there is a frame.
\<close>

fun steps :: "nat \<Rightarrow> VM \<Rightarrow> VM vm_result" where
  "steps 0 vm = Inr vm"
| "steps (Suc n) vm = (if vm_frames vm = [] then Inr vm else then_do (step vm) (steps n))"

text \<open>\<open>VM(program).run()\<close> stopped after \<open>n\<close> iterations of its loop.\<close>

definition run_prefix :: "nat \<Rightarrow> BytecodeProgram \<Rightarrow> VM vm_result" where
  "run_prefix n p = then_do (call_function (bp_entry_index p) 0 (VM_init p)) (steps n)"

section \<open>ast.py\<close>

text \<open>
  The syntax tree, as the back end reads it. Of a node's span only the starting line is
  read (for the line table), so a node carries that line. The resolver keys its side
  tables by \<open>id(node)\<close>; the nodes that are used as keys (variable declarations, variable
  references, assignments and calls) carry that identity as a number. A \<open>Param\<close> is its
  name, a function's body is the statement list of its block, and a binary expression
  carries the lexeme of its operator token. The fields of a node come in the order:
  identity (if any), line, then the fields of the source.
\<close>

datatype Expr =
    IntLiteral int int
  | VarExpr nat int string
  | AssignExpr nat int string Expr
  | BinaryExpr int Expr string Expr
  | CallExpr nat int string "Expr list"

record VarDecl =
  vd_id :: nat
  vd_line :: int
  vd_name :: string
  vd_mutable :: bool
  vd_initializer :: Expr

datatype Stmt =
    VarDeclStmt VarDecl
  | BlockStmt "Stmt list"
  | ExprStmt int Expr
  | PrintStmt int Expr
  | IfStmt int Expr Stmt "Stmt option"
  | WhileStmt int Expr Stmt
  | ReturnStmt int Expr

record FunctionDecl =
  fd_line :: int
  fd_name :: string
  fd_params :: "string list"
  fd_body :: "Stmt list"

datatype Declaration = VarDeclaration VarDecl | FunctionDeclaration FunctionDecl

type_synonym Program = "Declaration list"

section \<open>semantic.py\<close>

text \<open>A binding is a \<open>GlobalBinding\<close> or a \<open>LocalBinding\<close>: name, mutable, index.\<close>

datatype VarBinding =
    GlobalBinding string bool int
  | LocalBinding string bool int

fun binding_name :: "VarBinding \<Rightarrow> string" where
  "binding_name (GlobalBinding n m i) = n"
| "binding_name (LocalBinding n m i) = n"

fun binding_mutable :: "VarBinding \<Rightarrow> bool" where
  "binding_mutable (GlobalBinding n m i) = m"
| "binding_mutable (LocalBinding n m i) = m"

fun binding_index :: "VarBinding \<Rightarrow> int" where
  "binding_index (GlobalBinding n m i) = i"
| "binding_index (LocalBinding n m i) = i"

record FunctionSymbol =
  fs_name :: string
  fs_index :: int
  fs_arity :: int
  fs_decl :: FunctionDecl
  fs_locals :: "VarBinding list"
  fs_max_locals :: int

record GlobalVariable =
  gv_decl :: VarDecl
  gv_binding :: VarBinding

text \<open>
  \<open>functions_by_name\<close> and \<open>call_targets\<close> hold references to function symbols. Through
  them only a symbol's name, index, arity and declaration are read, which never change
  once the symbol is declared, so the tables hold the symbol as declared. The symbols
  that resolution fills in (locals, frame size) are those of the function list.
\<close>

record ResolvedProgram =
  rp_program :: Program
  rp_globals :: "GlobalVariable list"
  rp_functions :: "FunctionSymbol list"
  rp_var_bindings :: "nat \<rightharpoonup> VarBinding"
  rp_call_targets :: "nat \<rightharpoonup> FunctionSymbol"

record Resolver =
  r_program :: Program
  global_scope :: "string \<rightharpoonup> VarBinding"
  r_globals :: "GlobalVariable list"
  r_functions :: "FunctionSymbol list"
  functions_by_name :: "string \<rightharpoonup> FunctionSymbol"
  var_bindings :: "nat \<rightharpoonup> VarBinding"
  call_targets :: "nat \<rightharpoonup> FunctionSymbol"
  scopes :: "(string \<rightharpoonup> VarBinding) list"

text \<open>
  \<open>_FunctionContext\<close>: the function being resolved, as its position in the function
  list, and the next free local index.
\<close>

record FunctionContext =
  cx_function :: nat
  cx_next_local_index :: int

definition Resolver_init :: "Program \<Rightarrow> Resolver" where
  "Resolver_init prog =
     \<lparr>r_program = prog, global_scope = Map.empty, r_globals = [], r_functions = [],
      functions_by_name = Map.empty, var_bindings = Map.empty, call_targets = Map.empty,
      scopes = []\<rparr>"

definition declare_global :: "VarDecl \<Rightarrow> Resolver \<Rightarrow> error + Resolver" where
  "declare_global decl s =
     (if global_scope s (vd_name decl) \<noteq> None \<or> functions_by_name s (vd_name decl) \<noteq> None then
        Inl (SemanticError (''duplicate declaration of '' @ squote (vd_name decl)))
      else
        let index = int (length (r_globals s));
            binding = GlobalBinding (vd_name decl) (vd_mutable decl) index
        in Inr (s\<lparr>global_scope := (global_scope s)(vd_name decl \<mapsto> binding),
                   r_globals := r_globals s @ [\<lparr>gv_decl = decl, gv_binding = binding\<rparr>],
                   var_bindings := (var_bindings s)(vd_id decl \<mapsto> binding)\<rparr>))"

definition declare_function :: "FunctionDecl \<Rightarrow> Resolver \<Rightarrow> error + Resolver" where
  "declare_function decl s =
     (if functions_by_name s (fd_name decl) \<noteq> None \<or> global_scope s (fd_name decl) \<noteq> None then
        Inl (SemanticError (''duplicate declaration of '' @ squote (fd_name decl)))
      else
        let index = int (length (r_functions s));
            symbol = \<lparr>fs_name = fd_name decl, fs_index = index,
                      fs_arity = int (length (fd_params decl)), fs_decl = decl,
                      fs_locals = [], fs_max_locals = 0\<rparr>
        in Inr (s\<lparr>r_functions := r_functions s @ [symbol],
                   functions_by_name := (functions_by_name s)(fd_name decl \<mapsto> symbol)\<rparr>))"

fun declare_top_level :: "Declaration list \<Rightarrow> Resolver \<Rightarrow> error + Resolver" where
  "declare_top_level [] s = Inr s"
| "declare_top_level (VarDeclaration decl # ds) s =
     (case declare_global decl s of Inl e \<Rightarrow> Inl e | Inr s1 \<Rightarrow> declare_top_level ds s1)"
| "declare_top_level (FunctionDeclaration decl # ds) s =
     (case declare_function decl s of Inl e \<Rightarrow> Inl e | Inr s1 \<Rightarrow> declare_top_level ds s1)"

definition push_scope :: "Resolver \<Rightarrow> Resolver" where
  "push_scope s = s\<lparr>scopes := scopes s @ [Map.empty]\<rparr>"

definition pop_scope :: "Resolver \<Rightarrow> Resolver" where
  "pop_scope s = s\<lparr>scopes := butlast (scopes s)\<rparr>"

definition declare_local :: "VarBinding \<Rightarrow> Resolver \<Rightarrow> Resolver" where
  "declare_local binding s =
     s\<lparr>scopes := butlast (scopes s) @ [(last (scopes s))(binding_name binding \<mapsto> binding)]\<rparr>"

text \<open>\<open>_lookup\<close>: innermost scope first, then the global scope.\<close>

fun lookup_in :: "(string \<rightharpoonup> VarBinding) list \<Rightarrow> string \<Rightarrow> VarBinding option" where
  "lookup_in [] name = None"
| "lookup_in (scope # rest) name =
     (case scope name of Some binding \<Rightarrow> Some binding | None \<Rightarrow> lookup_in rest name)"

definition lookup :: "Resolver \<Rightarrow> string \<Rightarrow> VarBinding option" where
  "lookup s name =
     (case lookup_in (rev (scopes s)) name of
        Some binding \<Rightarrow> Some binding
      | None \<Rightarrow> global_scope s name)"

text \<open>
  \<open>_resolve_expr\<close>. The context argument of the source is only passed on, never read, and
  is left out.
\<close>

fun resolve_expr :: "Expr \<Rightarrow> Resolver \<Rightarrow> error + Resolver"
  and resolve_exprs :: "Expr list \<Rightarrow> Resolver \<Rightarrow> error + Resolver" where
  "resolve_expr (IntLiteral line v) s = Inr s"
| "resolve_expr (VarExpr n line name) s =
     (case lookup s name of
        None \<Rightarrow> Inl (SemanticError (''undeclared variable '' @ squote name))
      | Some binding \<Rightarrow> Inr (s\<lparr>var_bindings := (var_bindings s)(n \<mapsto> binding)\<rparr>))"
| "resolve_expr (AssignExpr n line name v) s =
     (case lookup s name of
        None \<Rightarrow> Inl (SemanticError (''undeclared variable '' @ squote name))
      | Some binding \<Rightarrow>
          if \<not> binding_mutable binding then
            Inl (SemanticError (''cannot assign to immutable variable '' @ squote name))
          else
            (case resolve_expr v s of
               Inl e \<Rightarrow> Inl e
             | Inr s1 \<Rightarrow> Inr (s1\<lparr>var_bindings := (var_bindings s1)(n \<mapsto> binding)\<rparr>)))"
| "resolve_expr (BinaryExpr line left operator right) s =
     (case resolve_expr left s of
        Inl e \<Rightarrow> Inl e
      | Inr s1 \<Rightarrow> resolve_expr right s1)"
| "resolve_expr (CallExpr n line callee arguments) s =
     (case functions_by_name s callee of
        None \<Rightarrow> Inl (SemanticError (''unknown function '' @ squote callee))
      | Some symbol \<Rightarrow>
          if int (length arguments) \<noteq> fs_arity symbol then
            Inl (SemanticError (''function '' @ squote callee @ '' expects ''
                   @ py_str (fs_arity symbol) @ '' argument(s), got ''
                   @ py_str (int (length arguments))))
          else
            (case resolve_exprs arguments s of
               Inl e \<Rightarrow> Inl e
             | Inr s1 \<Rightarrow> Inr (s1\<lparr>call_targets := (call_targets s1)(n \<mapsto> symbol)\<rparr>)))"
| "resolve_exprs [] s = Inr s"
| "resolve_exprs (a # as) s =
     (case resolve_expr a s of
        Inl e \<Rightarrow> Inl e
      | Inr s1 \<Rightarrow> resolve_exprs as s1)"

text \<open>\<open>function.locals.append(binding)\<close> for the function of the context.\<close>

definition append_local :: "nat \<Rightarrow> VarBinding \<Rightarrow> Resolver \<Rightarrow> Resolver" where
  "append_local f binding s =
     s\<lparr>r_functions := (r_functions s)
          [f := (r_functions s ! f)\<lparr>fs_locals := fs_locals (r_functions s ! f) @ [binding]\<rparr>]\<rparr>"

definition resolve_local_var ::
    "VarDecl \<Rightarrow> Resolver \<times> FunctionContext \<Rightarrow> error + Resolver \<times> FunctionContext" where
  "resolve_local_var decl sc =
     (case resolve_expr (vd_initializer decl) (fst sc) of
        Inl e \<Rightarrow> Inl e
      | Inr s1 \<Rightarrow>
          let context = snd sc;
              index = cx_next_local_index context;
              context1 = context\<lparr>cx_next_local_index := cx_next_local_index context + 1\<rparr>;
              binding = LocalBinding (vd_name decl) (vd_mutable decl) index;
              s2 = declare_local binding s1;
              s3 = s2\<lparr>var_bindings := (var_bindings s2)(vd_id decl \<mapsto> binding)\<rparr>
          in Inr (append_local (cx_function context1) binding s3, context1))"

definition resolve_expr_in ::
    "Expr \<Rightarrow> Resolver \<times> FunctionContext \<Rightarrow> error + Resolver \<times> FunctionContext" where
  "resolve_expr_in e sc =
     (case resolve_expr e (fst sc) of Inl err \<Rightarrow> Inl err | Inr s1 \<Rightarrow> Inr (s1, snd sc))"

fun resolve_stmt ::
    "Stmt \<Rightarrow> Resolver \<times> FunctionContext \<Rightarrow> error + Resolver \<times> FunctionContext"
  and resolve_stmts ::
    "Stmt list \<Rightarrow> Resolver \<times> FunctionContext \<Rightarrow> error + Resolver \<times> FunctionContext" where
  "resolve_stmt (VarDeclStmt decl) sc = resolve_local_var decl sc"
| "resolve_stmt (BlockStmt statements) sc =
     (case resolve_stmts statements (push_scope (fst sc), snd sc) of
        Inl e \<Rightarrow> Inl e
      | Inr sc1 \<Rightarrow> Inr (pop_scope (fst sc1), snd sc1))"
| "resolve_stmt (ExprStmt line e) sc = resolve_expr_in e sc"
| "resolve_stmt (PrintStmt line e) sc = resolve_expr_in e sc"
| "resolve_stmt (IfStmt line condition then_branch None) sc =
     (case resolve_expr_in condition sc of
        Inl e \<Rightarrow> Inl e
      | Inr sc1 \<Rightarrow> resolve_stmt then_branch sc1)"
| "resolve_stmt (IfStmt line condition then_branch (Some else_branch)) sc =
     (case resolve_expr_in condition sc of
        Inl e \<Rightarrow> Inl e
      | Inr sc1 \<Rightarrow>
          (case resolve_stmt then_branch sc1 of
             Inl e \<Rightarrow> Inl e
           | Inr sc2 \<Rightarrow> resolve_stmt else_branch sc2))"
| "resolve_stmt (WhileStmt line condition body) sc =
     (case resolve_expr_in condition sc of
        Inl e \<Rightarrow> Inl e
      | Inr sc1 \<Rightarrow> resolve_stmt body sc1)"
| "resolve_stmt (ReturnStmt line e) sc = resolve_expr_in e sc"
| "resolve_stmts [] sc = Inr sc"
| "resolve_stmts (st # sts) sc =
     (case resolve_stmt st sc of
        Inl e \<Rightarrow> Inl e
      | Inr sc1 \<Rightarrow> resolve_stmts sts sc1)"

text \<open>\<open>_stmt_guarantees_return\<close> and \<open>_guarantees_return\<close>.\<close>

function (sequential) stmt_guarantees_return :: "Stmt \<Rightarrow> bool" where
  "stmt_guarantees_return (ReturnStmt line e) = True"
| "stmt_guarantees_return (BlockStmt statements) =
     (if statements = [] then False else stmt_guarantees_return (last statements))"
| "stmt_guarantees_return (IfStmt line condition then_branch None) = False"
| "stmt_guarantees_return (IfStmt line condition then_branch (Some else_branch)) =
     (stmt_guarantees_return then_branch \<and> stmt_guarantees_return else_branch)"
| "stmt_guarantees_return st = False"
  by pat_completeness auto

termination
proof (relation "measure size")
  fix statements :: "Stmt list"
  assume "statements \<noteq> []"
  then have "last statements \<in> set statements"
    by simp
  then have "size (last statements) \<le> size_list size statements"
    by (rule size_list_estimation') simp
  then show "(last statements, BlockStmt statements) \<in> measure size"
    by simp
qed simp_all

definition guarantees_return :: "Stmt list \<Rightarrow> bool" where
  "guarantees_return statements =
     (if statements = [] then False else stmt_guarantees_return (last statements))"

text \<open>\<open>max(xs, default=d)\<close>.\<close>

definition py_max_default :: "int list \<Rightarrow> int \<Rightarrow> int" where
  "py_max_default xs d = (case xs of [] \<Rightarrow> d | x # rest \<Rightarrow> fold max rest x)"

text \<open>The loop over the parameters in \<open>_resolve_function\<close>.\<close>

fun declare_params :: "nat \<Rightarrow> int \<Rightarrow> string list \<Rightarrow> Resolver \<Rightarrow> Resolver" where
  "declare_params f position [] s = s"
| "declare_params f position (param # params) s =
     (let binding = LocalBinding param True position
      in declare_params f (position + 1) params (append_local f binding (declare_local binding s)))"

text \<open>
  \<open>_resolve_function\<close>, for the function at position \<open>f\<close> of the function list, in two
  parts: up to the resolution of the body, and from the \<open>_pop_scope\<close> after it.
\<close>

definition resolve_function_body :: "nat \<Rightarrow> Resolver \<Rightarrow> error + Resolver \<times> FunctionContext" where
  "resolve_function_body f s =
     (let function = r_functions s ! f;
          context = \<lparr>cx_function = f,
                     cx_next_local_index = int (length (fd_params (fs_decl function)))\<rparr>;
          s1 = push_scope (s\<lparr>scopes := [global_scope s]\<rparr>);
          s2 = declare_params f 0 (fd_params (fs_decl function)) s1
      in resolve_stmt (BlockStmt (fd_body (fs_decl function))) (s2, context))"

definition set_max_locals :: "nat \<Rightarrow> Resolver \<Rightarrow> Resolver" where
  "set_max_locals f s =
     s\<lparr>r_functions := (r_functions s)
          [f := (r_functions s ! f)\<lparr>fs_max_locals :=
             py_max_default (map binding_index (fs_locals (r_functions s ! f))) (- 1) + 1\<rparr>]\<rparr>"

definition resolve_function :: "nat \<Rightarrow> Resolver \<Rightarrow> error + Resolver" where
  "resolve_function f s =
     (let function = r_functions s ! f in
      case resolve_function_body f s of
        Inl e \<Rightarrow> Inl e
      | Inr sc \<Rightarrow>
          let s3 = set_max_locals f (pop_scope (fst sc))
          in if \<not> guarantees_return (fd_body (fs_decl function)) then
               Inl (SemanticError (''function '' @ squote (fs_name function)
                      @ '' may exit without returning''))
             else Inr s3)"

fun resolve_globals :: "GlobalVariable list \<Rightarrow> Resolver \<Rightarrow> error + Resolver" where
  "resolve_globals [] s = Inr s"
| "resolve_globals (g # gs) s =
     (case resolve_expr (vd_initializer (gv_decl g)) s of
        Inl e \<Rightarrow> Inl e
      | Inr s1 \<Rightarrow> resolve_globals gs s1)"

fun resolve_functions :: "nat list \<Rightarrow> Resolver \<Rightarrow> error + Resolver" where
  "resolve_functions [] s = Inr s"
| "resolve_functions (f # fs) s =
     (case resolve_function f s of
        Inl e \<Rightarrow> Inl e
      | Inr s1 \<Rightarrow> resolve_functions fs s1)"

definition resolve :: "Program \<Rightarrow> error + ResolvedProgram" where
  "resolve prog =
     (case declare_top_level prog (Resolver_init prog) of
        Inl e \<Rightarrow> Inl e
      | Inr s1 \<Rightarrow>
          (case resolve_globals (r_globals s1) (s1\<lparr>scopes := [global_scope s1]\<rparr>) of
             Inl e \<Rightarrow> Inl e
           | Inr s2 \<Rightarrow>
               (case resolve_functions [0..<length (r_functions s2)] s2 of
                  Inl e \<Rightarrow> Inl e
                | Inr s3 \<Rightarrow>
                    Inr \<lparr>rp_program = r_program s3, rp_globals = r_globals s3,
                         rp_functions = r_functions s3, rp_var_bindings = var_bindings s3,
                         rp_call_targets = call_targets s3\<rparr>)))"

section \<open>compiler.py\<close>

text \<open>The compiler's state while one function is compiled is the current chunk.\<close>

definition emit :: "OpCode \<Rightarrow> int \<Rightarrow> Chunk \<Rightarrow> Chunk" where
  "emit opcode line c = chunk_write (opcode_value opcode) line c"

definition emit_u16 :: "int \<Rightarrow> int \<Rightarrow> Chunk \<Rightarrow> Chunk" where
  "emit_u16 v line c = write_u16 v line c"

definition emit_load_local :: "int \<Rightarrow> int \<Rightarrow> Chunk \<Rightarrow> Chunk" where
  "emit_load_local index line c = emit_u16 index line (emit LOAD_LOCAL line c)"

definition emit_store_local :: "int \<Rightarrow> int \<Rightarrow> Chunk \<Rightarrow> Chunk" where
  "emit_store_local index line c = emit_u16 index line (emit STORE_LOCAL line c)"

definition emit_load_global :: "int \<Rightarrow> int \<Rightarrow> Chunk \<Rightarrow> Chunk" where
  "emit_load_global index line c = emit_u16 index line (emit LOAD_GLOBAL line c)"

definition emit_store_global :: "int \<Rightarrow> int \<Rightarrow> Chunk \<Rightarrow> Chunk" where
  "emit_store_global index line c = emit_u16 index line (emit STORE_GLOBAL line c)"

definition emit_call :: "int \<Rightarrow> int \<Rightarrow> int \<Rightarrow> Chunk \<Rightarrow> Chunk" where
  "emit_call func_index argc line c =
     chunk_write argc line (emit_u16 func_index line (emit CALL line c))"

text \<open>\<open>_emit_jump\<close> returns the offset of the placeholder and the chunk.\<close>

definition emit_jump :: "OpCode \<Rightarrow> int \<Rightarrow> Chunk \<Rightarrow> int \<times> Chunk" where
  "emit_jump opcode line c =
     (let c1 = emit opcode line c;
          offset = int (length (code c1))
      in (offset, chunk_write 0 line (chunk_write 0 line c1)))"

definition patch_jump :: "int \<Rightarrow> Chunk \<Rightarrow> error + Chunk" where
  "patch_jump offset c = patch_u16 offset (int (length (code c))) c"

definition emit_loop :: "int \<Rightarrow> int \<Rightarrow> Chunk \<Rightarrow> Chunk" where
  "emit_loop loop_start line c = emit_u16 loop_start line (emit JMP line c)"

text \<open>\<open>_binding_for_node\<close>; the message of the source goes on with the node's repr.\<close>

definition binding_for_node :: "ResolvedProgram \<Rightarrow> nat \<Rightarrow> error + VarBinding" where
  "binding_for_node r n =
     (case rp_var_bindings r n of
        None \<Rightarrow> Inl (RuntimeError ''no binding recorded for node'')
      | Some binding \<Rightarrow> Inr binding)"

definition op_map :: "string \<Rightarrow> OpCode option" where
  "op_map lexeme =
     (if lexeme = ''+'' then Some ADD
      else if lexeme = ''-'' then Some SUB
      else if lexeme = ''*'' then Some MUL
      else if lexeme = ''/'' then Some DIV
      else None)"

fun compile_expr :: "ResolvedProgram \<Rightarrow> Expr \<Rightarrow> Chunk \<Rightarrow> error + Chunk"
  and compile_exprs :: "ResolvedProgram \<Rightarrow> Expr list \<Rightarrow> Chunk \<Rightarrow> error + Chunk" where
  "compile_expr r (IntLiteral line v) c =
     (case add_constant v c of
        (index, c1) \<Rightarrow> Inr (emit_u16 index line (emit PUSH_CONST line c1)))"
| "compile_expr r (VarExpr n line name) c =
     (case binding_for_node r n of
        Inl e \<Rightarrow> Inl e
      | Inr (LocalBinding bn bm index) \<Rightarrow> Inr (emit_load_local index line c)
      | Inr (GlobalBinding bn bm index) \<Rightarrow> Inr (emit_load_global index line c))"
| "compile_expr r (AssignExpr n line name v) c =
     (case binding_for_node r n of
        Inl e \<Rightarrow> Inl e
      | Inr binding \<Rightarrow>
          (case compile_expr r v c of
             Inl e \<Rightarrow> Inl e
           | Inr c1 \<Rightarrow>
               (case binding of
                  LocalBinding bn bm index \<Rightarrow>
                    Inr (emit_load_local index line (emit_store_local index line c1))
                | GlobalBinding bn bm index \<Rightarrow>
                    Inr (emit_load_global index line (emit_store_global index line c1)))))"
| "compile_expr r (BinaryExpr line left operator right) c =
     (case compile_expr r left c of
        Inl e \<Rightarrow> Inl e
      | Inr c1 \<Rightarrow>
          (case compile_expr r right c1 of
             Inl e \<Rightarrow> Inl e
           | Inr c2 \<Rightarrow>
               (case op_map operator of
                  None \<Rightarrow> Inl AssertionError
                | Some opcode \<Rightarrow> Inr (emit opcode line c2))))"
| "compile_expr r (CallExpr n line callee arguments) c =
     (case rp_call_targets r n of
        None \<Rightarrow> Inl KeyError
      | Some symbol \<Rightarrow>
          (case compile_exprs r arguments c of
             Inl e \<Rightarrow> Inl e
           | Inr c1 \<Rightarrow> Inr (emit_call (fs_index symbol) (int (length arguments)) line c1)))"
| "compile_exprs r [] c = Inr c"
| "compile_exprs r (a # as) c =
     (case compile_expr r a c of
        Inl e \<Rightarrow> Inl e
      | Inr c1 \<Rightarrow> compile_exprs r as c1)"

definition compile_var_decl :: "ResolvedProgram \<Rightarrow> VarDecl \<Rightarrow> Chunk \<Rightarrow> error + Chunk" where
  "compile_var_decl r decl c =
     (case binding_for_node r (vd_id decl) of
        Inl e \<Rightarrow> Inl e
      | Inr binding \<Rightarrow>
          (case compile_expr r (vd_initializer decl) c of
             Inl e \<Rightarrow> Inl e
           | Inr c1 \<Rightarrow>
               (case binding of
                  LocalBinding bn bm index \<Rightarrow> Inr (emit_store_local index (vd_line decl) c1)
                | GlobalBinding bn bm index \<Rightarrow> Inr (emit_store_global index (vd_line decl) c1))))"

text \<open>
  \<open>_compile_stmt\<close> with \<open>_compile_block\<close>, \<open>_compile_if\<close> and \<open>_compile_while\<close>. With an else
  branch the jump over it is emitted after the then branch, and patched after the else
  branch.
\<close>

fun compile_stmt :: "ResolvedProgram \<Rightarrow> Stmt \<Rightarrow> Chunk \<Rightarrow> error + Chunk"
  and compile_block :: "ResolvedProgram \<Rightarrow> Stmt list \<Rightarrow> Chunk \<Rightarrow> error + Chunk" where
  "compile_stmt r (VarDeclStmt decl) c = compile_var_decl r decl c"
| "compile_stmt r (BlockStmt statements) c = compile_block r statements c"
| "compile_stmt r (ExprStmt line e) c =
     (case compile_expr r e c of
        Inl err \<Rightarrow> Inl err
      | Inr c1 \<Rightarrow> Inr (emit POP line c1))"
| "compile_stmt r (PrintStmt line e) c =
     (case compile_expr r e c of
        Inl err \<Rightarrow> Inl err
      | Inr c1 \<Rightarrow> Inr (emit PRINT line c1))"
| "compile_stmt r (IfStmt line condition then_branch None) c =
     (case compile_expr r condition c of
        Inl err \<Rightarrow> Inl err
      | Inr c1 \<Rightarrow>
          (case emit_jump JMP_IF_FALSE line c1 of
             (jump_else, c2) \<Rightarrow>
               (case compile_stmt r then_branch c2 of
                  Inl err \<Rightarrow> Inl err
                | Inr c3 \<Rightarrow> patch_jump jump_else c3)))"
| "compile_stmt r (IfStmt line condition then_branch (Some else_branch)) c =
     (case compile_expr r condition c of
        Inl err \<Rightarrow> Inl err
      | Inr c1 \<Rightarrow>
          (case emit_jump JMP_IF_FALSE line c1 of
             (jump_else, c2) \<Rightarrow>
               (case compile_stmt r then_branch c2 of
                  Inl err \<Rightarrow> Inl err
                | Inr c3 \<Rightarrow>
                    (case emit_jump JMP line c3 of
                       (jump_end, c4) \<Rightarrow>
                         (case patch_jump jump_else c4 of
                            Inl err \<Rightarrow> Inl err
                          | Inr c5 \<Rightarrow>
                              (case compile_stmt r else_branch c5 of
                                 Inl err \<Rightarrow> Inl err
                               | Inr c6 \<Rightarrow> patch_jump jump_end c6))))))"
| "compile_stmt r (WhileStmt line condition body) c =
     (let loop_start = int (length (code c)) in
      case compile_expr r condition c of
        Inl err \<Rightarrow> Inl err
      | Inr c1 \<Rightarrow>
          (case emit_jump JMP_IF_FALSE line c1 of
             (exit_jump, c2) \<Rightarrow>
               (case compile_stmt r body c2 of
                  Inl err \<Rightarrow> Inl err
                | Inr c3 \<Rightarrow> patch_jump exit_jump (emit_loop loop_start line c3))))"
| "compile_stmt r (ReturnStmt line e) c =
     (case compile_expr r e c of
        Inl err \<Rightarrow> Inl err
      | Inr c1 \<Rightarrow> Inr (emit RET line c1))"
| "compile_block r [] c = Inr c"
| "compile_block r (st # sts) c =
     (case compile_stmt r st c of
        Inl err \<Rightarrow> Inl err
      | Inr c1 \<Rightarrow> compile_block r sts c1)"

definition compile_function :: "ResolvedProgram \<Rightarrow> FunctionSymbol \<Rightarrow> error + BytecodeFunction" where
  "compile_function r symbol =
     (case compile_block r (fd_body (fs_decl symbol)) empty_chunk of
        Inl e \<Rightarrow> Inl e
      | Inr chunk \<Rightarrow>
          Inr \<lparr>bf_name = fs_name symbol, bf_chunk = chunk, bf_arity = fs_arity symbol,
               bf_num_locals = fs_max_locals symbol\<rparr>)"

text \<open>The loop over the globals in \<open>_compile_entry_function\<close>.\<close>

fun compile_global_inits :: "ResolvedProgram \<Rightarrow> GlobalVariable list \<Rightarrow> Chunk \<Rightarrow> error + Chunk" where
  "compile_global_inits r [] c = Inr c"
| "compile_global_inits r (g # gs) c =
     (case compile_expr r (vd_initializer (gv_decl g)) c of
        Inl e \<Rightarrow> Inl e
      | Inr c1 \<Rightarrow>
          compile_global_inits r gs
            (emit_store_global (binding_index (gv_binding g)) (vd_line (gv_decl g)) c1))"

definition compile_entry_function :: "ResolvedProgram \<Rightarrow> error + BytecodeFunction" where
  "compile_entry_function r =
     (case compile_global_inits r (rp_globals r) empty_chunk of
        Inl e \<Rightarrow> Inl e
      | Inr c1 \<Rightarrow>
          (case find (\<lambda>fn. fs_name fn = ''main'') (rp_functions r) of
             None \<Rightarrow> Inl (RuntimeError ''entry point 'main' is missing'')
           | Some main_symbol \<Rightarrow>
               let line = fd_line (fs_decl main_symbol);
                   c2 = emit_call (fs_index main_symbol)
                          (int (length (fd_params (fs_decl main_symbol)))) line c1;
                   c3 = emit POP line c2;
                   c4 = emit HALT line c3
               in Inr \<lparr>bf_name = ''<entry>'', bf_chunk = c4, bf_arity = 0, bf_num_locals = 0\<rparr>))"

text \<open>The loop over the function symbols in \<open>compile\<close>, filling \<open>self.functions\<close>.\<close>

fun compile_functions ::
    "ResolvedProgram \<Rightarrow> FunctionSymbol list \<Rightarrow> BytecodeFunction option list
       \<Rightarrow> error + BytecodeFunction option list" where
  "compile_functions r [] fns = Inr fns"
| "compile_functions r (symbol # symbols) fns =
     (case compile_function r symbol of
        Inl e \<Rightarrow> Inl e
      | Inr compiled \<Rightarrow>
          (case py_set fns (fs_index symbol) (Some compiled) of
             None \<Rightarrow> Inl IndexError
           | Some fns1 \<Rightarrow> compile_functions r symbols fns1))"

definition compile :: "ResolvedProgram \<Rightarrow> error + BytecodeProgram" where
  "compile r =
     (case compile_functions r (rp_functions r) (replicate (length (rp_functions r)) None) of
        Inl e \<Rightarrow> Inl e
      | Inr fns \<Rightarrow>
          (case compile_entry_function r of
             Inl e \<Rightarrow> Inl e
           | Inr entry_fn \<Rightarrow>
               let functions = List.map_filter (\<lambda>fn. fn) fns;
                   entry_index = int (length functions)
               in Inr \<lparr>bp_functions = functions @ [entry_fn],
                       bp_globals = map (\<lambda>g. 0) (rp_globals r),
                       bp_entry_index = entry_index\<rparr>))"

text \<open>\<open>Compiler.from_program\<close>.\<close>

definition from_program :: "Program \<Rightarrow> error + BytecodeProgram" where
  "from_program prog = (case resolve prog of Inl e \<Rightarrow> Inl e | Inr resolved \<Rightarrow> compile resolved)"

section \<open>disasm.py\<close>

text \<open>The format specifications \<open>:04\<close> (of an integer), \<open>:>3\<close> and \<open>:<13\<close>.\<close>

definition fmt_04 :: "int \<Rightarrow> string" where
  "fmt_04 i =
     (if i < 0 then
        CHR ''-'' # replicate (3 - length (nat_digits (nat (- i)))) CHR ''0'' @ nat_digits (nat (- i))
      else replicate (4 - length (nat_digits (nat i))) CHR ''0'' @ nat_digits (nat i))"

definition rjust :: "nat \<Rightarrow> string \<Rightarrow> string" where
  "rjust w s = replicate (w - length s) CHR '' '' @ s"

definition ljust :: "nat \<Rightarrow> string \<Rightarrow> string" where
  "ljust w s = s @ replicate (w - length s) CHR '' ''"

definition disasm_read_u16 :: "Chunk \<Rightarrow> nat \<Rightarrow> error + int \<times> nat" where
  "disasm_read_u16 chunk offset =
     (case py_get (code chunk) (int offset) of
        None \<Rightarrow> Inl IndexError
      | Some hi \<Rightarrow>
          (case py_get (code chunk) (int offset + 1) of
             None \<Rightarrow> Inl IndexError
           | Some lo \<Rightarrow> Inr (push_bit 8 hi OR lo, offset + 2)))"

text \<open>
  The body of the loop of \<open>_disassemble_function\<close> at an offset below the code length:
  the text of one instruction, and the offset after it.
\<close>

definition disassemble_instruction ::
    "BytecodeFunction \<Rightarrow> BytecodeProgram \<Rightarrow> nat \<Rightarrow> error + string \<times> nat" where
  "disassemble_instruction function program offset0 =
     (let chunk = bf_chunk function in
      case py_get (lines chunk) (int offset0) of
        None \<Rightarrow> Inl IndexError
      | Some line \<Rightarrow>
     (case py_get (code chunk) (int offset0) of
        None \<Rightarrow> Inl IndexError
      | Some b \<Rightarrow>
     (case OpCode_of b of
        None \<Rightarrow> Inl ValueError
      | Some opcode \<Rightarrow>
     (let offset = offset0 + 1 in
      if opcode = PUSH_CONST then
        (case disasm_read_u16 chunk offset of
           Inl e \<Rightarrow> Inl e
         | Inr (const_index, offset) \<Rightarrow>
             (case py_get (constants chunk) const_index of
                None \<Rightarrow> Inl IndexError
              | Some v \<Rightarrow>
                  Inr (fmt_04 (int offset - 3) @ '' line '' @ rjust 3 (py_str line) @ '' ''
                         @ ljust 13 (opcode_name opcode) @ '' #'' @ py_str const_index
                         @ '' ('' @ py_str v @ '')'', offset)))
      else if opcode \<in> {LOAD_LOCAL, STORE_LOCAL, LOAD_GLOBAL, STORE_GLOBAL} then
        (case disasm_read_u16 chunk offset of
           Inl e \<Rightarrow> Inl e
         | Inr (index, offset) \<Rightarrow>
             Inr (fmt_04 (int offset - 3) @ '' line '' @ rjust 3 (py_str line) @ '' ''
                    @ ljust 13 (opcode_name opcode) @ '' '' @ py_str index, offset))
      else if opcode = CALL then
        (case disasm_read_u16 chunk offset of
           Inl e \<Rightarrow> Inl e
         | Inr (func_index, offset) \<Rightarrow>
             (case py_get (code chunk) (int offset) of
                None \<Rightarrow> Inl IndexError
              | Some argc \<Rightarrow>
                  let offset = offset + 1;
                      name = (if 0 \<le> func_index
                                 \<and> func_index < int (length (bp_functions program))
                              then bf_name (bp_functions program ! nat func_index)
                              else ''<invalid>'')
                  in Inr (fmt_04 (int offset - 4) @ '' line '' @ rjust 3 (py_str line)
                            @ '' CALL           '' @ py_str func_index @ '' '' @ name
                            @ '' argc='' @ py_str argc, offset)))
      else if opcode \<in> {JMP, JMP_IF_FALSE} then
        (case disasm_read_u16 chunk offset of
           Inl e \<Rightarrow> Inl e
         | Inr (target, offset) \<Rightarrow>
             Inr (fmt_04 (int offset - 3) @ '' line '' @ rjust 3 (py_str line) @ '' ''
                    @ ljust 13 (opcode_name opcode) @ '' -> '' @ fmt_04 target, offset))
      else
        Inr (fmt_04 (int offset - 1) @ '' line '' @ rjust 3 (py_str line) @ '' ''
               @ opcode_name opcode, offset)))))"

text \<open>
  The loop of \<open>_disassemble_function\<close>. Every instruction moves the offset forward, so
  the loop ends.
\<close>

function disassemble_from ::
    "BytecodeFunction \<Rightarrow> BytecodeProgram \<Rightarrow> nat \<Rightarrow> string list \<Rightarrow> error + string list" where
  "disassemble_from function program offset acc =
     (if offset < length (code (bf_chunk function)) then
        (case disassemble_instruction function program offset of
           Inl e \<Rightarrow> Inl e
         | Inr (text, offset1) \<Rightarrow> disassemble_from function program offset1 (acc @ [text]))
      else Inr acc)"
  by pat_completeness auto

termination
proof (relation "measure (\<lambda>(function, program, offset, acc).
                            length (code (bf_chunk function)) - offset)")
  fix f :: BytecodeFunction and p :: BytecodeProgram and off off1 :: nat
  fix acc :: "string list" and x :: "string \<times> nat" and ln :: "string"
  assume below: "off < length (code (bf_chunk f))"
    and instr: "disassemble_instruction f p off = Inr x"
    and x: "(ln, off1) = x"
  from instr x have "off < off1"
    by (auto simp: disassemble_instruction_def disasm_read_u16_def Let_def
             split: option.splits if_splits sum.splits prod.splits)
  with below show "((f, p, off1, acc @ [ln]), f, p, off, acc)
        \<in> measure (\<lambda>(function, program, offset, acc).
                      length (code (bf_chunk function)) - offset)"
    by simp
qed simp

declare disassemble_from.simps [simp del]

definition disassemble_function :: "BytecodeFunction \<Rightarrow> BytecodeProgram \<Rightarrow> error + string list" where
  "disassemble_function function program =
     disassemble_from function program 0 []"

fun disassemble_functions ::
    "BytecodeProgram \<Rightarrow> nat \<Rightarrow> BytecodeFunction list \<Rightarrow> string list \<Rightarrow> error + string list" where
  "disassemble_functions program index [] acc = Inr acc"
| "disassemble_functions program index (function # rest) acc =
     (case disassemble_function function program of
        Inl e \<Rightarrow> Inl e
      | Inr ls \<Rightarrow>
          disassemble_functions program (index + 1) rest
            (acc @ [''== fn '' @ py_str (int index) @ '' '' @ bf_name function @ '' ==''] @ ls))"

text \<open>\<open>"\n".join(lines)\<close>.\<close>

fun join_lines :: "string list \<Rightarrow> string" where
  "join_lines [] = []"
| "join_lines [l] = l"
| "join_lines (l # ls) = l @ CHR 0x0A # join_lines ls"

definition disassemble_program :: "BytecodeProgram \<Rightarrow> error + string" where
  "disassemble_program program =
     (case disassemble_functions program 0 (bp_functions program) [] of
        Inl e \<Rightarrow> Inl e
      | Inr ls \<Rightarrow> Inr (join_lines ls))"

section \<open>Serialization (chunk.py)\<close>

text \<open>
  \<open>to_dict\<close> builds dictionaries with fixed string keys; the dictionary under each key has
  the shape \<open>to_dict\<close> gives it. \<open>int(x)\<close> of an integer is that integer.
\<close>

record Chunk_dict =
  dict_code :: "int list"
  dict_lines :: "int list"
  dict_constants :: "int list"

record Function_dict =
  dict_name :: string
  dict_chunk :: Chunk_dict
  dict_arity :: int
  dict_num_locals :: int

record Program_dict =
  dict_functions :: "Function_dict list"
  dict_globals :: "int list"
  dict_entry_index :: int

definition py_int :: "int \<Rightarrow> int" where
  "py_int x = x"

definition Chunk_to_dict :: "Chunk \<Rightarrow> Chunk_dict" where
  "Chunk_to_dict c =
     \<lparr>dict_code = map py_int (code c), dict_lines = lines c, dict_constants = constants c\<rparr>"

definition Chunk_from_dict :: "Chunk_dict \<Rightarrow> Chunk" where
  "Chunk_from_dict d =
     \<lparr>code = map py_int (dict_code d), lines = map py_int (dict_lines d),
      constants = map py_int (dict_constants d)\<rparr>"

definition Function_to_dict :: "BytecodeFunction \<Rightarrow> Function_dict" where
  "Function_to_dict f =
     \<lparr>dict_name = bf_name f, dict_chunk = Chunk_to_dict (bf_chunk f), dict_arity = bf_arity f,
      dict_num_locals = bf_num_locals f\<rparr>"

definition Function_from_dict :: "Function_dict \<Rightarrow> BytecodeFunction" where
  "Function_from_dict d =
     \<lparr>bf_name = dict_name d, bf_chunk = Chunk_from_dict (dict_chunk d),
      bf_arity = py_int (dict_arity d), bf_num_locals = py_int (dict_num_locals d)\<rparr>"

definition Program_to_dict :: "BytecodeProgram \<Rightarrow> Program_dict" where
  "Program_to_dict p =
     \<lparr>dict_functions = map Function_to_dict (bp_functions p), dict_globals = bp_globals p,
      dict_entry_index = bp_entry_index p\<rparr>"

definition Program_from_dict :: "Program_dict \<Rightarrow> BytecodeProgram" where
  "Program_from_dict d =
     \<lparr>bp_functions = map Function_from_dict (dict_functions d),
      bp_globals = map py_int (dict_globals d), bp_entry_index = py_int (dict_entry_index d)\<rparr>"

text \<open>The two bytes \<open>write_u16\<close> appends for a value.\<close>

definition u16_bytes :: "int \<Rightarrow> int list" where
  "u16_bytes v = [drop_bit 8 v AND 0xFF, v AND 0xFF]"

text \<open>
  The bytes at the current frame's instruction pointer: the code of its function goes on
  with \<open>bytes\<close> from there.
\<close>

definition code_at :: "VM \<Rightarrow> int list \<Rightarrow> bool" where
  "code_at vm bytes \<longleftrightarrow>
     vm_frames vm \<noteq> [] \<and> 0 \<le> cf_ip (cur_frame vm) \<and>
     take (length bytes) (drop (nat (cf_ip (cur_frame vm)))
       (code (bf_chunk (cf_function (cur_frame vm))))) = bytes"

section \<open>Hand-written programs for the examples\<close>

definition example_function :: "int list \<Rightarrow> int list \<Rightarrow> BytecodeFunction" where
  "example_function cd cs =
     \<lparr>bf_name = ''<entry>'',
      bf_chunk = \<lparr>code = cd, lines = replicate (length cd) 1, constants = cs\<rparr>,
      bf_arity = 0, bf_num_locals = 0\<rparr>"

definition example_program :: "int list \<Rightarrow> int list \<Rightarrow> int list \<Rightarrow> BytecodeProgram" where
  "example_program cd cs gs =
     \<lparr>bp_functions = [example_function cd cs], bp_globals = gs, bp_entry_index = 0\<rparr>"

text \<open>A machine inside the single function, at offset 0, with a given operand stack.\<close>

definition example_vm :: "int list \<Rightarrow> int list \<Rightarrow> VM" where
  "example_vm cd st =
     \<lparr>vm_program = example_program cd [] [], vm_stack = st,
      vm_frames = [\<lparr>cf_function = example_function cd [], cf_ip = 0, cf_stack_base = 0\<rparr>],
      vm_globals = [], vm_output = []\<rparr>"

text \<open>The same machine with a given list of globals.\<close>

definition example_vm_globals :: "int list \<Rightarrow> int list \<Rightarrow> int list \<Rightarrow> VM" where
  "example_vm_globals cd st gs = (example_vm cd st)\<lparr>vm_globals := gs\<rparr>"

subsection \<open>Programs for the resolver and the compiler\<close>

text \<open>A result that is not an exception, and its value.\<close>

definition succeeds :: "'e + 'a \<Rightarrow> bool" where
  "succeeds r = (case r of Inl e \<Rightarrow> False | Inr x \<Rightarrow> True)"

definition the_result :: "'e + 'a \<Rightarrow> 'a" where
  "the_result r = (case r of Inr x \<Rightarrow> x)"

text \<open>The resolver after \<open>_declare_top_level\<close>.\<close>

definition declared :: "Program \<Rightarrow> Resolver" where
  "declared prog = the_result (declare_top_level prog (Resolver_init prog))"

definition main_decl :: "string list \<Rightarrow> Stmt list \<Rightarrow> Declaration" where
  "main_decl params body =
     FunctionDeclaration \<lparr>fd_line = 1, fd_name = ''main'', fd_params = params, fd_body = body\<rparr>"

text \<open>\<open>if (1) { return 1; } else { return 0; }\<close>\<close>

definition if_else_body :: "Stmt list" where
  "if_else_body =
     [IfStmt 2 (IntLiteral 2 1) (BlockStmt [ReturnStmt 3 (IntLiteral 3 1)])
        (Some (BlockStmt [ReturnStmt 5 (IntLiteral 5 0)]))]"

text \<open>\<open>fn main() { return 0; }\<close>\<close>

definition return0_program :: Program where
  "return0_program = [main_decl [] [ReturnStmt 2 (IntLiteral 2 0)]]"

text \<open>The resolved and the compiled program of a source program that has them.\<close>

definition resolved :: "Program \<Rightarrow> ResolvedProgram" where
  "resolved prog = the_result (resolve prog)"

definition compiled :: "Program \<Rightarrow> BytecodeProgram" where
  "compiled prog = the_result (from_program prog)"

text \<open>A chunk whose line table has one entry for every byte of its code.\<close>

definition balanced :: "Chunk \<Rightarrow> bool" where
  "balanced c \<longleftrightarrow> length (lines c) = length (code c)"

text \<open>
  \<open>var g = 10; fn main(a, b) { var x = a; { let y = b; } { var y = x; } return x; }
  let h = g;\<close>
\<close>

definition slots_program :: Program where
  "slots_program =
     [VarDeclaration \<lparr>vd_id = 0, vd_line = 1, vd_name = ''g'', vd_mutable = True,
                      vd_initializer = IntLiteral 1 10\<rparr>,
      FunctionDeclaration
        \<lparr>fd_line = 2, fd_name = ''main'', fd_params = [''a'', ''b''],
         fd_body =
           [VarDeclStmt \<lparr>vd_id = 1, vd_line = 3, vd_name = ''x'', vd_mutable = True,
                         vd_initializer = VarExpr 2 3 ''a''\<rparr>,
            BlockStmt [VarDeclStmt \<lparr>vd_id = 3, vd_line = 4, vd_name = ''y'', vd_mutable = False,
                                    vd_initializer = VarExpr 4 4 ''b''\<rparr>],
            BlockStmt [VarDeclStmt \<lparr>vd_id = 5, vd_line = 5, vd_name = ''y'', vd_mutable = True,
                                    vd_initializer = VarExpr 6 5 ''x''\<rparr>],
            ReturnStmt 6 (VarExpr 7 6 ''x'')]\<rparr>,
      VarDeclaration \<lparr>vd_id = 8, vd_line = 8, vd_name = ''h'', vd_mutable = False,
                      vd_initializer = VarExpr 9 8 ''g''\<rparr>]"

text \<open>
  \<open>var g = 0; fn main() { var x = 0; print (x = 5); print (g = 7); print x + g; return 0; }\<close>
\<close>

definition assign_program :: Program where
  "assign_program =
     [VarDeclaration \<lparr>vd_id = 0, vd_line = 1, vd_name = ''g'', vd_mutable = True,
                      vd_initializer = IntLiteral 1 0\<rparr>,
      main_decl []
        [VarDeclStmt \<lparr>vd_id = 1, vd_line = 3, vd_name = ''x'', vd_mutable = True,
                      vd_initializer = IntLiteral 3 0\<rparr>,
         PrintStmt 4 (AssignExpr 2 4 ''x'' (IntLiteral 4 5)),
         PrintStmt 5 (AssignExpr 3 5 ''g'' (IntLiteral 5 7)),
         PrintStmt 6 (BinaryExpr 6 (VarExpr 4 6 ''x'') ''+'' (VarExpr 5 6 ''g'')),
         ReturnStmt 7 (IntLiteral 7 0)]]"

text \<open>\<open>fn main(a) { return a; }\<close>\<close>

definition main1_program :: Program where
  "main1_program = [main_decl [''a''] [ReturnStmt 2 (VarExpr 0 2 ''a'')]]"

text \<open>\<open>var g = 10; let h = 20; fn main(a) { return a; }\<close>\<close>

definition global_main1_program :: Program where
  "global_main1_program =
     [VarDeclaration \<lparr>vd_id = 0, vd_line = 1, vd_name = ''g'', vd_mutable = True,
                      vd_initializer = IntLiteral 1 10\<rparr>,
      VarDeclaration \<lparr>vd_id = 1, vd_line = 2, vd_name = ''h'', vd_mutable = False,
                      vd_initializer = IntLiteral 2 20\<rparr>,
      FunctionDeclaration
        \<lparr>fd_line = 3, fd_name = ''main'', fd_params = [''a''],
         fd_body = [ReturnStmt 3 (VarExpr 2 3 ''a'')]\<rparr>]"

text \<open>\<open>var g = 10; fn main() { print g; return 0; }\<close>\<close>

definition global_main0_program :: Program where
  "global_main0_program =
     [VarDeclaration \<lparr>vd_id = 0, vd_line = 1, vd_name = ''g'', vd_mutable = True,
                      vd_initializer = IntLiteral 1 10\<rparr>,
      FunctionDeclaration
        \<lparr>fd_line = 2, fd_name = ''main'', fd_params = [],
         fd_body = [PrintStmt 2 (VarExpr 1 2 ''g''), ReturnStmt 3 (IntLiteral 3 0)]\<rparr>]"

section \<open>The specification's return-path rule\<close>

text \<open>
  The rule as the specification words it, to be compared with \<open>stmt_guarantees_return\<close>: a
  statement guarantees return when it is a return, or a block whose last statement
  guarantees return, or an \<open>if\<close> with both branches present and each guaranteeing return.
  A body guarantees return when its last statement does.
\<close>

inductive stmt_returns_spec :: "Stmt \<Rightarrow> bool" where
  is_return: "stmt_returns_spec (ReturnStmt line e)"
| is_block: "statements \<noteq> [] \<Longrightarrow> stmt_returns_spec (last statements)
     \<Longrightarrow> stmt_returns_spec (BlockStmt statements)"
| is_if: "stmt_returns_spec then_branch \<Longrightarrow> stmt_returns_spec else_branch
     \<Longrightarrow> stmt_returns_spec (IfStmt line condition then_branch (Some else_branch))"

definition body_returns_spec :: "Stmt list \<Rightarrow> bool" where
  "body_returns_spec statements \<longleftrightarrow> statements \<noteq> [] \<and> stmt_returns_spec (last statements)"

section \<open>The specification's slot assignment\<close>

text \<open>
  The slots as the specification describes them, to be compared with what the resolver
  computes. Globals: the top-level variable declarations in order, numbered from 0.
  Locals of a function: its parameters (mutable) and then every \<open>let\<close>/\<open>var\<close> of its body
  in order of appearance, whatever block it stands in, numbered from 0.
\<close>

fun global_decls :: "Program \<Rightarrow> VarDecl list" where
  "global_decls [] = []"
| "global_decls (VarDeclaration d # ds) = d # global_decls ds"
| "global_decls (FunctionDeclaration d # ds) = global_decls ds"

fun function_decls :: "Program \<Rightarrow> FunctionDecl list" where
  "function_decls [] = []"
| "function_decls (VarDeclaration d # ds) = function_decls ds"
| "function_decls (FunctionDeclaration d # ds) = d # function_decls ds"

fun global_variables :: "int \<Rightarrow> VarDecl list \<Rightarrow> GlobalVariable list" where
  "global_variables i [] = []"
| "global_variables i (d # ds) =
     \<lparr>gv_decl = d, gv_binding = GlobalBinding (vd_name d) (vd_mutable d) i\<rparr>
       # global_variables (i + 1) ds"

fun stmt_decls :: "Stmt \<Rightarrow> (string \<times> bool) list"
  and stmts_decls :: "Stmt list \<Rightarrow> (string \<times> bool) list" where
  "stmt_decls (VarDeclStmt d) = [(vd_name d, vd_mutable d)]"
| "stmt_decls (BlockStmt statements) = stmts_decls statements"
| "stmt_decls (ExprStmt line e) = []"
| "stmt_decls (PrintStmt line e) = []"
| "stmt_decls (IfStmt line condition then_branch None) = stmt_decls then_branch"
| "stmt_decls (IfStmt line condition then_branch (Some else_branch)) =
     stmt_decls then_branch @ stmt_decls else_branch"
| "stmt_decls (WhileStmt line condition body) = stmt_decls body"
| "stmt_decls (ReturnStmt line e) = []"
| "stmts_decls [] = []"
| "stmts_decls (st # sts) = stmt_decls st @ stmts_decls sts"

fun local_bindings :: "int \<Rightarrow> (string \<times> bool) list \<Rightarrow> VarBinding list" where
  "local_bindings i [] = []"
| "local_bindings i ((n, m) # ds) = LocalBinding n m i # local_bindings (i + 1) ds"

definition function_locals :: "FunctionDecl \<Rightarrow> VarBinding list" where
  "function_locals decl =
     local_bindings 0 (map (\<lambda>p. (p, True)) (fd_params decl) @ stmts_decls (fd_body decl))"

text \<open>The function list with bindings appended to the locals of the function at \<open>f\<close>.\<close>

definition add_locals :: "nat \<Rightarrow> VarBinding list \<Rightarrow> FunctionSymbol list \<Rightarrow> FunctionSymbol list" where
  "add_locals f bs fns = fns[f := (fns ! f)\<lparr>fs_locals := fs_locals (fns ! f) @ bs\<rparr>]"

text \<open>
  What resolving statements that declare \<open>ds\<close> does to the function list and the context.
\<close>

definition declares ::
    "(string \<times> bool) list \<Rightarrow> Resolver \<times> FunctionContext \<Rightarrow> Resolver \<times> FunctionContext \<Rightarrow> bool" where
  "declares ds sc sc' \<longleftrightarrow>
     cx_function (snd sc') = cx_function (snd sc) \<and>
     cx_next_local_index (snd sc') = cx_next_local_index (snd sc) + int (length ds) \<and>
     r_functions (fst sc') =
       add_locals (cx_function (snd sc)) (local_bindings (cx_next_local_index (snd sc)) ds)
         (r_functions (fst sc)) \<and>
     r_globals (fst sc') = r_globals (fst sc)"

text \<open>A function symbol as declared, and as \<open>_resolve_function\<close> leaves it.\<close>

definition declared_symbol :: "int \<Rightarrow> FunctionDecl \<Rightarrow> FunctionSymbol" where
  "declared_symbol i decl =
     \<lparr>fs_name = fd_name decl, fs_index = i, fs_arity = int (length (fd_params decl)),
      fs_decl = decl, fs_locals = [], fs_max_locals = 0\<rparr>"

definition resolved_symbol :: "int \<Rightarrow> FunctionDecl \<Rightarrow> FunctionSymbol" where
  "resolved_symbol i decl =
     (declared_symbol i decl)
       \<lparr>fs_locals := function_locals decl,
        fs_max_locals := int (length (function_locals decl))\<rparr>"

fun symbols_from :: "(int \<Rightarrow> FunctionDecl \<Rightarrow> FunctionSymbol) \<Rightarrow> int \<Rightarrow> FunctionDecl list
                       \<Rightarrow> FunctionSymbol list" where
  "symbols_from mk i [] = []"
| "symbols_from mk i (d # ds) = mk i d # symbols_from mk (i + 1) ds"

text \<open>A function symbol once \<open>_resolve_function\<close> has filled it in.\<close>

definition finish :: "FunctionSymbol \<Rightarrow> FunctionSymbol" where
  "finish fn = fn\<lparr>fs_locals := function_locals (fs_decl fn),
                  fs_max_locals := int (length (function_locals (fs_decl fn)))\<rparr>"

section \<open>The entry function on the machine\<close>

text \<open>
  The machine inside the entry function of a program, which is the only frame, at offset
  \<open>ip\<close>, with an empty operand stack, no output and the globals \<open>gs\<close>.
\<close>

definition entry_vm :: "BytecodeProgram \<Rightarrow> int \<Rightarrow> int list \<Rightarrow> VM" where
  "entry_vm p ip gs =
     \<lparr>vm_program = p, vm_stack = [],
      vm_frames = [\<lparr>cf_function = bp_functions p ! nat (bp_entry_index p), cf_ip = ip,
                    cf_stack_base = 0\<rparr>],
      vm_globals = gs, vm_output = []\<rparr>"

text \<open>
  The values of the global initializers when every one of them is an integer literal, and
  the code that stores \<open>n\<close> literals into the globals \<open>k\<close>, \<open>k + 1\<close>, ...: for each,
  \<open>PUSH_CONST\<close> of constant \<open>k\<close> and \<open>STORE_GLOBAL\<close> to slot \<open>k\<close>.
\<close>

fun literal_values :: "GlobalVariable list \<Rightarrow> int list option" where
  "literal_values [] = Some []"
| "literal_values (g # gs) =
     (case vd_initializer (gv_decl g) of
        IntLiteral line v \<Rightarrow> map_option ((#) v) (literal_values gs)
      | _ \<Rightarrow> None)"

fun literal_inits_code :: "int \<Rightarrow> nat \<Rightarrow> int list" where
  "literal_inits_code k 0 = []"
| "literal_inits_code k (Suc n) =
     ([opcode_value PUSH_CONST] @ u16_bytes k @ [opcode_value STORE_GLOBAL] @ u16_bytes k)
       @ literal_inits_code (k + 1) n"

subsection \<open>Straight-line code\<close>

text \<open>
  An instruction as its opcode and operand bytes, with its encoding. The instructions that
  the compiler emits for an expression are the \<open>plain\<close> ones: the loads, stores and
  \<open>PUSH_CONST\<close> with a two-byte operand, the four arithmetic opcodes, and \<open>CALL\<close> with a
  two-byte operand and the argument count. \<open>eff\<close> is what the instruction adds to the depth
  of the operand stack once it is over (for \<open>CALL\<close>, once the callee has returned: the
  arguments are gone and the result is there).
\<close>

datatype instr = Instr OpCode "int list"

fun enc :: "instr \<Rightarrow> int list" where
  "enc (Instr oc ops) = opcode_value oc # ops"

fun eff :: "instr \<Rightarrow> int" where
  "eff (Instr oc ops) =
     (if oc = CALL then 1 - last ops
      else if oc = PUSH_CONST \<or> oc = LOAD_LOCAL \<or> oc = LOAD_GLOBAL then 1
      else - 1)"

fun plain :: "instr \<Rightarrow> bool" where
  "plain (Instr oc ops) =
     (if oc = CALL then length ops = 3
      else if oc \<in> {PUSH_CONST, LOAD_LOCAL, STORE_LOCAL, LOAD_GLOBAL, STORE_GLOBAL} then length ops = 2
      else oc \<in> {ADD, SUB, MUL, DIV} \<and> ops = [])"

text \<open>The frames once the current frame has moved past instruction \<open>i\<close>.\<close>

definition advanced :: "VM \<Rightarrow> instr \<Rightarrow> CallFrame list" where
  "advanced vm i =
     butlast (vm_frames vm) @ [(cur_frame vm)\<lparr>cf_ip := cf_ip (cur_frame vm) + int (length (enc i))\<rparr>]"

text \<open>
  What one iteration of the run loop can do to the frame list: empty it (\<open>HALT\<close>), move
  the instruction pointer of the current frame, push a frame whose stack base is not
  negative (\<open>CALL\<close>), or drop the current frame (\<open>RET\<close>), which leaves at most one value
  above that frame's stack base.
\<close>

definition frames_step :: "VM \<Rightarrow> VM \<Rightarrow> bool" where
  "frames_step vm vm' \<longleftrightarrow>
     vm_frames vm' = [] \<or>
     (\<exists>ip. vm_frames vm' = butlast (vm_frames vm) @ [(cur_frame vm)\<lparr>cf_ip := ip\<rparr>]) \<or>
     (\<exists>ip new. vm_frames vm' = butlast (vm_frames vm) @ [(cur_frame vm)\<lparr>cf_ip := ip\<rparr>, new] \<and>
        0 \<le> cf_stack_base new) \<or>
     (vm_frames vm' = butlast (vm_frames vm) \<and>
        (0 \<le> cf_stack_base (cur_frame vm) \<longrightarrow>
           int (length (vm_stack vm')) \<le> cf_stack_base (cur_frame vm) + 1))"

text \<open>
  Chunk \<open>c'\<close> is chunk \<open>c\<close> with the encodings of plain instructions appended, whose
  effects add up to \<open>d\<close>.
\<close>

definition emits :: "Chunk \<Rightarrow> Chunk \<Rightarrow> int \<Rightarrow> bool" where
  "emits c c' d \<longleftrightarrow>
     (\<exists>ins. code c' = code c @ concat (map enc ins) \<and> list_all plain ins \<and>
        sum_list (map eff ins) = d)"

text \<open>
  The entry frame of function \<open>f\<close> before the \<open>k\<close>-th instruction of the list \<open>ins\<close> that
  its code starts with, and the sum of the effects of the instructions before it.
\<close>

definition entry_frame :: "BytecodeFunction \<Rightarrow> instr list \<Rightarrow> nat \<Rightarrow> CallFrame" where
  "entry_frame f ins k =
     \<lparr>cf_function = f, cf_ip = int (length (concat (map enc (take k ins)))), cf_stack_base = 0\<rparr>"

definition height :: "instr list \<Rightarrow> nat \<Rightarrow> int" where
  "height ins k = sum_list (map eff (take k ins))"

text \<open>
  The invariant of a run inside the code \<open>ins\<close> of the entry function \<open>f\<close>. The bottom
  frame is the entry frame before some instruction \<open>k\<close>. If it is the only frame, the
  operand stack is at most as deep as the effects of the instructions before \<open>k\<close> add up
  to; if a call is under way, the stack base of the frame above it is not negative and
  leaves room for the result within that bound.
\<close>

definition entry_inv :: "BytecodeProgram \<Rightarrow> BytecodeFunction \<Rightarrow> instr list \<Rightarrow> VM \<Rightarrow> bool" where
  "entry_inv p f ins vm \<longleftrightarrow>
     vm_program vm = p \<and>
     (vm_frames vm = [] \<or>
      (\<exists>k \<le> length ins. hd (vm_frames vm) = entry_frame f ins k \<and>
         ((length (vm_frames vm) = 1 \<and> int (length (vm_stack vm)) \<le> height ins k) \<or>
          (2 \<le> length (vm_frames vm) \<and> 0 \<le> cf_stack_base (vm_frames vm ! 1) \<and>
             cf_stack_base (vm_frames vm ! 1) + 1 \<le> height ins k))))"

section \<open>Properties of the virtual machine\<close>

lemma then_do_Inr: "then_do m f = Inr y \<longleftrightarrow> (\<exists>x. m = Inr x \<and> f x = Inr y)"
  by (cases m) (simp_all add: then_do_def)

lemma then_do_Inl: "then_do m f = Inl e \<longleftrightarrow> (m = Inl e \<or> (\<exists>x. m = Inr x \<and> f x = Inl e))"
  by (cases m) (simp_all add: then_do_def)

lemma OpCode_of_value [simp]: "OpCode_of (opcode_value oc) = Some oc"
  by (cases oc) (simp_all add: OpCode_of_def)

lemma step_fetched:
  "fetched vm oc \<Longrightarrow> step vm = exec_op oc (set_ip (cf_ip (cur_frame vm) + 1) vm)"
  by (simp add: fetched_def step_def Let_def)

lemma binary_two:
  "vm_stack vm = st @ [a, b] \<Longrightarrow>
   binary f vm = (case f a b of Inl msg \<Rightarrow> Inl (VMRuntimeError msg, vm\<lparr>vm_stack := st\<rparr>)
                  | Inr r \<Rightarrow> Inr (vm\<lparr>vm_stack := st @ [r]\<rparr>))"
  by (simp add: binary_def pop_def then_do_def push_def butlast_append split: sum.splits)

lemma set_ip_stack [simp]: "vm_stack (set_ip i vm) = vm_stack vm"
  by (simp add: set_ip_def)

lemma example_vm_fetched:
  "fetched (example_vm [opcode_value oc] st) oc"
  by (simp add: fetched_def example_vm_def example_function_def cur_frame_def py_get_def)

lemma example_vm_ip [simp]: "cf_ip (cur_frame (example_vm cd st)) = 0"
  by (simp add: example_vm_def cur_frame_def)

lemma example_vm_stack [simp]: "vm_stack (example_vm cd st) = st"
  by (simp add: example_vm_def)

subsection \<open>Division\<close>

text \<open>
  C4. When the run loop fetches \<open>DIV\<close> with \<open>a\<close> and \<open>b\<close> on top of the operand stack
  (\<open>b\<close> topmost, so popped first), the step pushes the mathematical floor of \<open>a / b\<close> in
  their place; when \<open>b\<close> is zero it raises the machine's runtime error
  "division by zero" instead, with both operands popped and nothing pushed.
\<close>

theorem DIV_floor_or_fault:
  assumes "fetched vm DIV" and "vm_stack vm = st @ [a, b]"
  shows "step vm =
           (if b = 0 then
              Inl (VMRuntimeError ''division by zero'',
                   (set_ip (cf_ip (cur_frame vm) + 1) vm)\<lparr>vm_stack := st\<rparr>)
            else
              Inr ((set_ip (cf_ip (cur_frame vm) + 1) vm)
                     \<lparr>vm_stack := st @ [\<lfloor>real_of_int a / real_of_int b\<rfloor>]\<rparr>))"
proof -
  let ?vm1 = "set_ip (cf_ip (cur_frame vm) + 1) vm"
  have "step vm = binary safe_div ?vm1"
    using assms(1) by (simp add: step_fetched)
  also have "\<dots> = (case safe_div a b of
        Inl msg \<Rightarrow> Inl (VMRuntimeError msg, ?vm1\<lparr>vm_stack := st\<rparr>)
      | Inr r \<Rightarrow> Inr (?vm1\<lparr>vm_stack := st @ [r]\<rparr>))"
    using assms(2) by (intro binary_two) simp
  finally show ?thesis
    by (simp add: safe_div_def floor_divide_of_int_eq)
qed

theorem DIV_floor_or_fault_witness:
  "fetched (example_vm [8] [- 7, 2]) DIV \<and>
   vm_stack (final_vm (step (example_vm [8] [- 7, 2]))) = [- 4] \<and>
   fetched (example_vm [8] [5, 0]) DIV \<and>
   step (example_vm [8] [5, 0]) =
     Inl (VMRuntimeError ''division by zero'',
          (set_ip 1 (example_vm [8] [5, 0]))\<lparr>vm_stack := []\<rparr>)"
proof -
  have f1: "fetched (example_vm [8] [- 7, 2]) DIV"
    using example_vm_fetched [of DIV] by simp
  have f2: "fetched (example_vm [8] [5, 0]) DIV"
    using example_vm_fetched [of DIV] by simp
  have s1: "vm_stack (example_vm [8] [- 7, 2]) = [] @ [- 7, 2]"
    by simp
  have s2: "vm_stack (example_vm [8] [5, 0]) = [] @ [5, 0]"
    by simp
  have fl: "\<lfloor>real_of_int (- 7) / real_of_int 2\<rfloor> = (- 4 :: int)"
    by (simp add: floor_divide_of_int_eq)
  show ?thesis
    using DIV_floor_or_fault [OF f1 s1] DIV_floor_or_fault [OF f2 s2] f1 f2 fl
    by (simp add: final_vm_def)
qed

subsection \<open>Addition, subtraction, multiplication\<close>

text \<open>
  C9, as the claim states it, fails: the operands are Python integers and no result is
  ever reduced to a fixed width. Adding 1 to the largest 64-bit (or 32-bit) signed value
  pushes the next integer, where two's-complement addition of that width wraps to the
  most negative value.
\<close>

theorem ADD_wraps_counterexample:
  "vm_stack (final_vm (step (example_vm [5] [9223372036854775807, 1]))) = [9223372036854775808] \<and>
   sint ((word_of_int 9223372036854775807 :: 64 word) + word_of_int 1) = - 9223372036854775808 \<and>
   vm_stack (final_vm (step (example_vm [5] [2147483647, 1]))) = [2147483648] \<and>
   sint ((word_of_int 2147483647 :: 32 word) + word_of_int 1) = - 2147483648"
proof -
  have f: "fetched (example_vm [5] st) ADD" for st
    using example_vm_fetched [of ADD] by simp
  have "step (example_vm [5] [a, b]) = Inr ((set_ip 1 (example_vm [5] [a, b]))\<lparr>vm_stack := [a + b]\<rparr>)"
    for a b
    using binary_two [of "set_ip 1 (example_vm [5] [a, b])" "[]" a b "\<lambda>a b. Inr (a + b)"]
    by (simp add: step_fetched [OF f])
  then show ?thesis
    by (simp add: final_vm_def)
qed

text \<open>
  C9, amended. When the run loop fetches \<open>ADD\<close>, \<open>SUB\<close> or \<open>MUL\<close> with \<open>a\<close> and \<open>b\<close> on
  top of the operand stack (\<open>b\<close> topmost, so popped first), the step replaces them by the
  exact integer \<open>a + b\<close>, \<open>a - b\<close> or \<open>a * b\<close>: unbounded arithmetic, no wrap-around.
\<close>

theorem arithmetic_is_exact:
  assumes "fetched vm oc" and "vm_stack vm = st @ [a, b]" and "oc \<in> {ADD, SUB, MUL}"
  shows "step vm =
           Inr ((set_ip (cf_ip (cur_frame vm) + 1) vm)
                  \<lparr>vm_stack := st @ [if oc = ADD then a + b else if oc = SUB then a - b else a * b]\<rparr>)"
proof -
  have st: "vm_stack (set_ip (cf_ip (cur_frame vm) + 1) vm) = st @ [a, b]"
    using assms(2) by simp
  show ?thesis
    using assms(1,3) by (auto simp: step_fetched binary_two [OF st])
qed

theorem arithmetic_is_exact_witness:
  "fetched (example_vm [7] [4, 3000000000, 5000000000]) MUL \<and>
   MUL \<in> {ADD, SUB, MUL} \<and>
   vm_stack (final_vm (step (example_vm [7] [4, 3000000000, 5000000000])))
     = [4, 15000000000000000000]"
proof -
  have f: "fetched (example_vm [7] [4, 3000000000, 5000000000]) MUL"
    using example_vm_fetched [of MUL] by simp
  have s: "vm_stack (example_vm [7] [4, 3000000000, 5000000000]) = [4] @ [3000000000, 5000000000]"
    by simp
  show ?thesis
    using arithmetic_is_exact [OF f s] f by (simp add: final_vm_def)
qed

subsection \<open>Slot accesses and faults\<close>

text \<open>
  C5. The claim is that every local or global slot access is bounds-checked and that every
  violation, like an unknown opcode, raises the machine's runtime error. The code does
  not do so for global loads and unknown opcodes: a program whose entry function is
  \<open>LOAD_GLOBAL 0\<close> with no globals ends with Python's IndexError, and an opcode byte
  outside the enumeration ends with ValueError. The store to the same missing global
  does raise the machine's "global store out of range".
\<close>

theorem LOAD_GLOBAL_unchecked:
  "map_option raised (run_program 1 (example_program [3, 0, 0] [] [])) = Some (Some IndexError) \<and>
   map_option raised (run_program 1 (example_program [16] [] [])) = Some (Some ValueError) \<and>
   map_option raised (run_program 2 (example_program [0, 0, 0, 4, 0, 0] [7] []))
     = Some (Some (VMRuntimeError ''global store out of range''))"
  by code_simp

subsection \<open>The program object\<close>

lemma set_ip_program [simp]: "vm_program (set_ip i vm) = vm_program vm"
  by (simp add: set_ip_def)

lemma push_program [simp]: "vm_program (push v vm) = vm_program vm"
  by (simp add: push_def)

lemma pop_program:
  "pop vm = Inr (v, vm') \<Longrightarrow> vm_program vm' = vm_program vm"
  "pop vm = Inl (e, vm') \<Longrightarrow> vm_program vm' = vm_program vm"
  by (auto simp: pop_def split: if_splits)

lemma read_u16_program:
  "read_u16 vm = Inr (v, vm') \<Longrightarrow> vm_program vm' = vm_program vm"
  "read_u16 vm = Inl (e, vm') \<Longrightarrow> vm_program vm' = vm_program vm"
  by (auto simp: read_u16_def Let_def split: option.splits)

lemma read_byte_program:
  "read_byte vm = Inr (v, vm') \<Longrightarrow> vm_program vm' = vm_program vm"
  "read_byte vm = Inl (e, vm') \<Longrightarrow> vm_program vm' = vm_program vm"
  by (auto simp: read_byte_def Let_def split: option.splits)

lemma binary_program:
  "binary f vm = Inr vm' \<Longrightarrow> vm_program vm' = vm_program vm"
  "binary f vm = Inl (e, vm') \<Longrightarrow> vm_program vm' = vm_program vm"
  by (auto simp: binary_def then_do_def pop_def push_def split: sum.splits if_splits)

lemma call_function_program:
  "call_function i n vm = Inr vm' \<Longrightarrow> vm_program vm' = vm_program vm"
  "call_function i n vm = Inl (e, vm') \<Longrightarrow> vm_program vm' = vm_program vm"
  by (auto simp: call_function_def Let_def split: if_splits)

lemma return_op_program:
  "return_op vm = Inr vm' \<Longrightarrow> vm_program vm' = vm_program vm"
  "return_op vm = Inl (e, vm') \<Longrightarrow> vm_program vm' = vm_program vm"
  by (auto simp: return_op_def Let_def then_do_Inr then_do_Inl dest!: pop_program
           split: if_splits)

lemma store_local_program:
  "store_local i vm = Inr vm' \<Longrightarrow> vm_program vm' = vm_program vm"
  "store_local i vm = Inl (e, vm') \<Longrightarrow> vm_program vm' = vm_program vm"
  by (auto simp: store_local_def Let_def then_do_Inr then_do_Inl dest!: pop_program
           split: if_splits option.splits)

lemma load_local_program:
  "load_local i vm = Inr (v, vm') \<Longrightarrow> vm_program vm' = vm_program vm"
  "load_local i vm = Inl (e, vm') \<Longrightarrow> vm_program vm' = vm_program vm"
  by (auto simp: load_local_def Let_def split: if_splits option.splits)

lemma store_global_program:
  "store_global i vm = Inr vm' \<Longrightarrow> vm_program vm' = vm_program vm"
  "store_global i vm = Inl (e, vm') \<Longrightarrow> vm_program vm' = vm_program vm"
  by (auto simp: store_global_def Let_def then_do_Inr then_do_Inl dest!: pop_program
           split: if_splits option.splits)

lemmas vm_program_helpers =
  pop_program read_u16_program read_byte_program binary_program call_function_program
  return_op_program store_local_program load_local_program store_global_program

lemma exec_op_program:
  "exec_op oc vm = Inr vm' \<Longrightarrow> vm_program vm' = vm_program vm"
  "exec_op oc vm = Inl (e, vm') \<Longrightarrow> vm_program vm' = vm_program vm"
  by (cases oc; auto simp: then_do_Inr then_do_Inl dest!: vm_program_helpers
        split: option.splits if_splits)+

lemma step_program:
  "step vm = Inr vm' \<Longrightarrow> vm_program vm' = vm_program vm"
  "step vm = Inl (e, vm') \<Longrightarrow> vm_program vm' = vm_program vm"
  by (auto simp: step_def Let_def dest!: exec_op_program split: if_splits option.splits)

lemma run_loop_program:
  "run_loop fuel vm = Some r \<Longrightarrow> vm_program (final_vm r) = vm_program vm"
proof (induction fuel arbitrary: vm)
  case 0
  then show ?case
    by (auto simp: run_loop.simps [of 0] final_vm_def split: if_splits)
next
  case (Suc n)
  show ?case
  proof (cases "vm_frames vm = []")
    case True
    with Suc.prems show ?thesis
      by (auto simp: run_loop.simps [of "Suc n"] final_vm_def)
  next
    case False
    show ?thesis
    proof (cases "step vm")
      case (Inl ev)
      with False Suc.prems show ?thesis
        by (cases ev) (auto simp: run_loop.simps [of "Suc n"] final_vm_def dest: step_program)
    next
      case (Inr vm1)
      with False Suc.prems have "run_loop n vm1 = Some r"
        by (simp add: run_loop.simps [of "Suc n"])
      from Suc.IH [OF this] step_program(1) [OF Inr] show ?thesis
        by simp
    qed
  qed
qed

text \<open>
  C10. However a run ends, by \<open>HALT\<close>, by the last frame returning, or by an exception,
  the program object the machine was built from is the one it was given: its function
  table, its list of global initial values and its entry index are unchanged. The same
  holds after every single step of a run that has not ended, whether the step raises or
  not. Global stores go to the machine's own list, which starts as a copy of the
  program's.
\<close>

theorem run_never_mutates_program:
  "(run_program fuel p = Some r \<longrightarrow> vm_program (final_vm r) = p) \<and>
   vm_program (final_vm (step vm)) = vm_program vm \<and>
   vm_program (VM_init p) = p \<and> vm_globals (VM_init p) = bp_globals p"
proof -
  have init: "vm_program (VM_init p) = p" "vm_globals (VM_init p) = bp_globals p"
    by (simp_all add: VM_init_def)
  have one: "vm_program (final_vm (step vm)) = vm_program vm"
  proof (cases "step vm")
    case (Inl ev)
    then show ?thesis
      by (cases ev) (auto simp: final_vm_def dest: step_program(2))
  next
    case (Inr vm')
    then show ?thesis
      by (auto simp: final_vm_def dest: step_program(1))
  qed
  have "vm_program (final_vm r) = p" if r: "run_program fuel p = Some r"
  proof (cases "call_function (bp_entry_index p) 0 (VM_init p)")
    case (Inl ev)
    with r init show ?thesis
      by (cases ev)
         (auto simp: run_program_def run_def final_vm_def dest: call_function_program)
  next
    case (Inr vm1)
    with r init have "run_loop fuel vm1 = Some r"
      by (simp add: run_program_def run_def)
    from run_loop_program [OF this] call_function_program(1) [OF Inr] init show ?thesis
      by simp
  qed
  with one init show ?thesis
    by blast
qed

theorem run_never_mutates_program_witness:
  "run_program 3 (example_program [0, 0, 0, 4, 0, 0, 15] [7] [0]) =
     Some (Inr \<lparr>vm_program = example_program [0, 0, 0, 4, 0, 0, 15] [7] [0], vm_stack = [],
                vm_frames = [], vm_globals = [7], vm_output = []\<rparr>) \<and>
   bp_globals (vm_program (final_vm (Inr \<lparr>vm_program = example_program [0, 0, 0, 4, 0, 0, 15] [7] [0],
                vm_stack = [], vm_frames = [], vm_globals = [7], vm_output = []\<rparr>))) = [0]"
proof -
  have r: "run_program 3 (example_program [0, 0, 0, 4, 0, 0, 15] [7] [0]) =
     Some (Inr \<lparr>vm_program = example_program [0, 0, 0, 4, 0, 0, 15] [7] [0], vm_stack = [],
                vm_frames = [], vm_globals = [7], vm_output = []\<rparr>)"
    by code_simp
  from run_never_mutates_program [of 3 "example_program [0, 0, 0, 4, 0, 0, 15] [7] [0]"] r
  show ?thesis
    by (simp add: example_program_def)
qed

section \<open>Properties of the serialization\<close>

lemma py_int_map [simp]: "map py_int xs = xs"
  by (induction xs) (simp_all add: py_int_def)

lemma Chunk_roundtrip [simp]: "Chunk_from_dict (Chunk_to_dict c) = c"
  by (simp add: Chunk_from_dict_def Chunk_to_dict_def)

lemma Function_roundtrip [simp]: "Function_from_dict (Function_to_dict f) = f"
  by (simp add: Function_from_dict_def Function_to_dict_def py_int_def)

lemma Function_roundtrip_map [simp]: "map (Function_from_dict \<circ> Function_to_dict) fs = fs"
  by (induction fs) simp_all

lemma Program_roundtrip: "Program_from_dict (Program_to_dict p) = p"
  by (simp add: Program_from_dict_def Program_to_dict_def py_int_def)

text \<open>
  C2. Decoding the encoding of a program gives the program back: the same functions in
  the same order, each with the same name, arity, frame size, instruction bytes, line
  table and constant pool (duplicates and order included), the same global initial
  values and the same entry index. Encoding the decoded program gives the same
  encoding again, and the disassembler gives the same result (the same text, or the
  same exception) on the program and on its round-tripped copy.
\<close>

theorem serialization_round_trip:
  "Program_from_dict (Program_to_dict p) = p \<and>
   map (code \<circ> bf_chunk) (bp_functions (Program_from_dict (Program_to_dict p)))
     = map (code \<circ> bf_chunk) (bp_functions p) \<and>
   map (lines \<circ> bf_chunk) (bp_functions (Program_from_dict (Program_to_dict p)))
     = map (lines \<circ> bf_chunk) (bp_functions p) \<and>
   map (constants \<circ> bf_chunk) (bp_functions (Program_from_dict (Program_to_dict p)))
     = map (constants \<circ> bf_chunk) (bp_functions p) \<and>
   bp_globals (Program_from_dict (Program_to_dict p)) = bp_globals p \<and>
   bp_entry_index (Program_from_dict (Program_to_dict p)) = bp_entry_index p \<and>
   Program_to_dict (Program_from_dict (Program_to_dict p)) = Program_to_dict p \<and>
   disassemble_program (Program_from_dict (Program_to_dict p)) = disassemble_program p"
  by (simp add: Program_roundtrip)

section \<open>Properties of the resolver\<close>

subsection \<open>Return paths\<close>

lemma stmt_guarantees_return_iff: "stmt_guarantees_return st \<longleftrightarrow> stmt_returns_spec st"
proof
  show "stmt_guarantees_return st \<Longrightarrow> stmt_returns_spec st"
    by (induction st rule: stmt_guarantees_return.induct)
       (auto intro: stmt_returns_spec.intros split: if_splits)
  show "stmt_returns_spec st \<Longrightarrow> stmt_guarantees_return st"
    by (induction rule: stmt_returns_spec.induct) simp_all
qed

lemma guarantees_return_iff: "guarantees_return body \<longleftrightarrow> body_returns_spec body"
  by (simp add: guarantees_return_def body_returns_spec_def stmt_guarantees_return_iff)

text \<open>
  C3. The resolver's return-path analysis accepts a body exactly when the
  specification's rule does: the last statement is a return, or a block whose last
  statement guarantees return, or an \<open>if\<close> with both branches, each guaranteeing return.
  When the body of a function resolves, \<open>_resolve_function\<close> succeeds if the rule holds
  of the body and otherwise raises the semantic error "function ... may exit without
  returning". A body ending in a \<open>while\<close> that contains the return, a body ending in an
  \<open>if\<close> without \<open>else\<close>, and the empty body are rejected.
\<close>

theorem return_path_analysis:
  "(guarantees_return body \<longleftrightarrow> body_returns_spec body) \<and>
   (succeeds (resolve_function_body f s) \<longrightarrow>
      resolve_function f s =
        (if body_returns_spec (fd_body (fs_decl (r_functions s ! f))) then
           Inr (set_max_locals f (pop_scope (fst (the_result (resolve_function_body f s)))))
         else
           Inl (SemanticError (''function '' @ squote (fs_name (r_functions s ! f))
                  @ '' may exit without returning'')))) \<and>
   \<not> body_returns_spec (pre @ [WhileStmt l c (ReturnStmt l' e)]) \<and>
   \<not> body_returns_spec (pre @ [IfStmt l c (ReturnStmt l' e) None]) \<and>
   \<not> body_returns_spec []"
proof -
  have "\<not> stmt_returns_spec (WhileStmt l c (ReturnStmt l' e))"
    and "\<not> stmt_returns_spec (IfStmt l c (ReturnStmt l' e) None)"
    by (auto elim: stmt_returns_spec.cases)
  then show ?thesis
    by (cases "resolve_function_body f s")
       (simp_all add: guarantees_return_iff succeeds_def the_result_def resolve_function_def
          Let_def body_returns_spec_def)
qed

theorem return_path_analysis_witness:
  "succeeds (resolve_function_body 0 (declared [main_decl [] if_else_body])) \<and>
   body_returns_spec if_else_body \<and>
   succeeds (resolve_function 0 (declared [main_decl [] if_else_body]))"
proof -
  have w1: "succeeds (resolve_function_body 0 (declared [main_decl [] if_else_body]))"
    by code_simp
  have w2: "body_returns_spec if_else_body"
    by (simp add: body_returns_spec_def if_else_body_def stmt_returns_spec.intros)
  have w3: "fd_body (fs_decl (r_functions (declared [main_decl [] if_else_body]) ! 0))
              = if_else_body"
    by (simp add: declared_def main_decl_def declare_function_def Resolver_init_def
          the_result_def Let_def)
  show ?thesis
    using return_path_analysis [of if_else_body 0 "declared [main_decl [] if_else_body]"]
      w1 w2 w3
    by (simp add: succeeds_def)
qed

subsection \<open>Slots\<close>

lemma resolve_expr_keeps:
  "resolve_expr e s = Inr s' \<Longrightarrow> r_functions s' = r_functions s \<and> r_globals s' = r_globals s"
  "resolve_exprs es s = Inr s' \<Longrightarrow> r_functions s' = r_functions s \<and> r_globals s' = r_globals s"
proof (induction e s and es s arbitrary: s' and s' rule: resolve_expr_resolve_exprs.induct)
  case (1 line v s)
  then show ?case by simp
next
  case (2 n line name s)
  then show ?case by (auto split: option.splits)
next
  case (3 n line name v s)
  from "3.prems" obtain binding s1 where
    s: "lookup s name = Some binding" "\<not> \<not> binding_mutable binding"
       "resolve_expr v s = Inr s1" "s' = s1\<lparr>var_bindings := (var_bindings s1)(n \<mapsto> binding)\<rparr>"
    by (simp split: option.splits if_splits sum.splits)
  from "3.IH" [OF s(1) s(2) s(3)] s(4) show ?case by simp
next
  case (4 line left operator right s)
  from "4.prems" obtain s1 where
    s: "resolve_expr left s = Inr s1" "resolve_expr right s1 = Inr s'"
    by (simp split: sum.splits)
  from "4.IH"(1) [OF s(1)] "4.IH"(2) [OF s(1) s(2)] show ?case by simp
next
  case (5 n line callee arguments s)
  from "5.prems" obtain symbol s1 where
    s: "functions_by_name s callee = Some symbol"
       "\<not> int (length arguments) \<noteq> fs_arity symbol"
       "resolve_exprs arguments s = Inr s1"
       "s' = s1\<lparr>call_targets := (call_targets s1)(n \<mapsto> symbol)\<rparr>"
    by (simp split: option.splits if_splits sum.splits)
  from "5.IH" [OF s(1) s(2) s(3)] s(4) show ?case by simp
next
  case (6 s)
  then show ?case by simp
next
  case (7 a as s)
  from "7.prems" obtain s1 where
    s: "resolve_expr a s = Inr s1" "resolve_exprs as s1 = Inr s'"
    by (simp split: sum.splits)
  from "7.IH"(1) [OF s(1)] "7.IH"(2) [OF s(1) s(2)] show ?case by simp
qed

lemma add_locals_Nil [simp]: "add_locals f [] fns = fns"
  by (simp add: add_locals_def)

lemma add_locals_add_locals [simp]:
  "add_locals f bs2 (add_locals f bs1 fns) = add_locals f (bs1 @ bs2) fns"
  by (cases "f < length fns") (simp_all add: add_locals_def list_update_beyond)

lemma length_add_locals [simp]: "length (add_locals f bs fns) = length fns"
  by (simp add: add_locals_def)

lemma local_bindings_append:
  "local_bindings i (xs @ ys) = local_bindings i xs @ local_bindings (i + int (length xs)) ys"
  by (induction i xs rule: local_bindings.induct) (simp_all add: algebra_simps)

lemma length_local_bindings [simp]: "length (local_bindings i ds) = length ds"
  by (induction i ds rule: local_bindings.induct) simp_all

lemma declares_trans:
  "declares ds1 sc sc1 \<Longrightarrow> declares ds2 sc1 sc2 \<Longrightarrow> declares (ds1 @ ds2) sc sc2"
  by (simp add: declares_def local_bindings_append)

lemma declares_refl [simp]: "declares [] sc sc"
  by (simp add: declares_def)

lemma declares_expr: "resolve_expr_in e sc = Inr sc' \<Longrightarrow> declares [] sc sc'"
  by (auto simp: resolve_expr_in_def declares_def dest: resolve_expr_keeps(1) split: sum.splits)

lemma declares_local_var:
  "resolve_local_var d sc = Inr sc' \<Longrightarrow> declares [(vd_name d, vd_mutable d)] sc sc'"
  by (auto simp: resolve_local_var_def declares_def Let_def append_local_def add_locals_def
        declare_local_def dest: resolve_expr_keeps(1) split: sum.splits)

lemma declares_scopes:
  "declares ds (push_scope (fst sc), snd sc) sc1 \<Longrightarrow> declares ds sc (pop_scope (fst sc1), snd sc1)"
  by (simp add: declares_def push_scope_def pop_scope_def)

lemma declares_stmt:
  "resolve_stmt st sc = Inr sc' \<Longrightarrow> declares (stmt_decls st) sc sc'"
  "resolve_stmts sts sc = Inr sc' \<Longrightarrow> declares (stmts_decls sts) sc sc'"
proof (induction st sc and sts sc arbitrary: sc' and sc' rule: resolve_stmt_resolve_stmts.induct)
  case (1 decl sc)
  then show ?case by (simp add: declares_local_var)
next
  case (2 statements sc)
  from "2.prems" obtain sc1 where
    s: "resolve_stmts statements (push_scope (fst sc), snd sc) = Inr sc1"
       "sc' = (pop_scope (fst sc1), snd sc1)"
    by (auto split: sum.splits)
  from declares_scopes [OF "2.IH" [OF s(1)]] s(2) show ?case by simp
next
  case (3 line e sc)
  then show ?case by (simp add: declares_expr)
next
  case (4 line e sc)
  then show ?case by (simp add: declares_expr)
next
  case (5 line condition then_branch sc)
  from "5.prems" obtain sc1 where
    s: "resolve_expr_in condition sc = Inr sc1" "resolve_stmt then_branch sc1 = Inr sc'"
    by (auto split: sum.splits)
  from declares_trans [OF declares_expr [OF s(1)] "5.IH" [OF s(1) s(2)]] show ?case by simp
next
  case (6 line condition then_branch else_branch sc)
  from "6.prems" obtain sc1 sc2 where
    s: "resolve_expr_in condition sc = Inr sc1" "resolve_stmt then_branch sc1 = Inr sc2"
       "resolve_stmt else_branch sc2 = Inr sc'"
    by (auto split: sum.splits)
  from declares_trans [OF declares_expr [OF s(1)] "6.IH"(1) [OF s(1) s(2)]]
  have "declares (stmt_decls then_branch) sc sc2" by simp
  from declares_trans [OF this "6.IH"(2) [OF s(1) s(2) s(3)]] show ?case by simp
next
  case (7 line condition body sc)
  from "7.prems" obtain sc1 where
    s: "resolve_expr_in condition sc = Inr sc1" "resolve_stmt body sc1 = Inr sc'"
    by (auto split: sum.splits)
  from declares_trans [OF declares_expr [OF s(1)] "7.IH" [OF s(1) s(2)]] show ?case by simp
next
  case (8 line e sc)
  then show ?case by (simp add: declares_expr)
next
  case (9 sc)
  then show ?case by simp
next
  case (10 st sts sc)
  from "10.prems" obtain sc1 where
    s: "resolve_stmt st sc = Inr sc1" "resolve_stmts sts sc1 = Inr sc'"
    by (auto split: sum.splits)
  from declares_trans [OF "10.IH"(1) [OF s(1)] "10.IH"(2) [OF s(1) s(2)]] show ?case by simp
qed


lemma declare_params_functions:
  "r_functions (declare_params f i ps s)
     = add_locals f (local_bindings i (map (\<lambda>p. (p, True)) ps)) (r_functions s)"
  by (induction f i ps s rule: declare_params.induct)
     (simp_all add: Let_def append_local_def declare_local_def add_locals_def [symmetric])

lemma declare_params_globals [simp]:
  "r_globals (declare_params f i ps s) = r_globals s"
  by (induction f i ps s rule: declare_params.induct)
     (simp_all add: Let_def append_local_def declare_local_def)

lemma fold_max_local_bindings:
  "fold max (map binding_index (local_bindings j ds)) m
     = (if ds = [] then m else max m (j + int (length ds) - 1))"
  by (induction j ds arbitrary: m rule: local_bindings.induct) auto

lemma max_local_bindings:
  "py_max_default (map binding_index (local_bindings 0 ds)) (- 1) + 1 = int (length ds)"
proof (cases ds)
  case Nil
  then show ?thesis by (simp add: py_max_default_def)
next
  case (Cons d ds')
  obtain n m where d: "d = (n, m)" by (cases d)
  show ?thesis
    by (simp add: Cons d py_max_default_def fold_max_local_bindings)
qed

lemma resolve_function_body_effect:
  assumes "resolve_function_body f s = Inr sc" and "f < length (r_functions s)"
    and "fs_locals (r_functions s ! f) = []"
  shows "r_functions (fst sc)
           = (r_functions s)[f := (r_functions s ! f)
                \<lparr>fs_locals := function_locals (fs_decl (r_functions s ! f))\<rparr>]"
    and "r_globals (fst sc) = r_globals s"
proof -
  let ?fn = "r_functions s ! f"
  let ?params = "map (\<lambda>p. (p, True)) (fd_params (fs_decl ?fn))"
  let ?s2 = "declare_params f 0 (fd_params (fs_decl ?fn))
               (push_scope (s\<lparr>scopes := [global_scope s]\<rparr>))"
  let ?cx = "\<lparr>cx_function = f, cx_next_local_index = int (length (fd_params (fs_decl ?fn)))\<rparr>"
  from assms(1) have "resolve_stmt (BlockStmt (fd_body (fs_decl ?fn))) (?s2, ?cx) = Inr sc"
    by (simp add: resolve_function_body_def Let_def)
  from declares_stmt(1) [OF this]
  have d: "declares (stmts_decls (fd_body (fs_decl ?fn))) (?s2, ?cx) sc"
    by simp
  have f2: "r_functions ?s2 = add_locals f (local_bindings 0 ?params) (r_functions s)"
    by (simp add: declare_params_functions push_scope_def)
  from d have "r_functions (fst sc)
      = add_locals f (local_bindings 0 (?params @ stmts_decls (fd_body (fs_decl ?fn))))
          (r_functions s)"
    by (simp add: declares_def f2 local_bindings_append)
  then show "r_functions (fst sc)
           = (r_functions s)[f := ?fn\<lparr>fs_locals := function_locals (fs_decl ?fn)\<rparr>]"
    using assms(3) by (simp add: add_locals_def function_locals_def)
  from d show "r_globals (fst sc) = r_globals s"
    by (simp add: declares_def push_scope_def)
qed

lemma resolve_function_effect:
  assumes "resolve_function f s = Inr s'" and "f < length (r_functions s)"
    and "fs_locals (r_functions s ! f) = []"
  shows "r_functions s'
           = (r_functions s)[f := (r_functions s ! f)
                \<lparr>fs_locals := function_locals (fs_decl (r_functions s ! f)),
                 fs_max_locals := int (length (function_locals (fs_decl (r_functions s ! f))))\<rparr>]"
    and "r_globals s' = r_globals s"
proof -
  from assms(1) obtain sc where
    b: "resolve_function_body f s = Inr sc"
    and s': "s' = set_max_locals f (pop_scope (fst sc))"
    by (auto simp: resolve_function_def Let_def split: sum.splits if_splits)
  note e = resolve_function_body_effect [OF b assms(2,3)]
  show "r_functions s'
           = (r_functions s)[f := (r_functions s ! f)
                \<lparr>fs_locals := function_locals (fs_decl (r_functions s ! f)),
                 fs_max_locals := int (length (function_locals (fs_decl (r_functions s ! f))))\<rparr>]"
    using assms(2)
    by (simp add: s' set_max_locals_def pop_scope_def e(1) function_locals_def
          max_local_bindings)
  show "r_globals s' = r_globals s"
    by (simp add: s' set_max_locals_def pop_scope_def e(2))
qed


lemma declare_top_level_effect:
  "declare_top_level ds s = Inr s' \<Longrightarrow>
     r_globals s' = r_globals s @ global_variables (int (length (r_globals s))) (global_decls ds) \<and>
     r_functions s' = r_functions s
        @ symbols_from declared_symbol (int (length (r_functions s))) (function_decls ds)"
proof (induction ds s arbitrary: s' rule: declare_top_level.induct)
  case (1 s)
  then show ?case by simp
next
  case (2 decl ds s)
  from "2.prems" obtain s1 where
    s: "declare_global decl s = Inr s1" "declare_top_level ds s1 = Inr s'"
    by (simp split: sum.splits)
  from s(1) have g: "r_globals s1 = r_globals s
        @ [\<lparr>gv_decl = decl,
             gv_binding = GlobalBinding (vd_name decl) (vd_mutable decl) (int (length (r_globals s)))\<rparr>]"
    and f: "r_functions s1 = r_functions s"
    by (auto simp: declare_global_def Let_def split: if_splits)
  from "2.IH" [OF s(1) s(2)] show ?case
    by (simp add: g f add.commute)
next
  case (3 decl ds s)
  from "3.prems" obtain s1 where
    s: "declare_function decl s = Inr s1" "declare_top_level ds s1 = Inr s'"
    by (simp split: sum.splits)
  from s(1) have g: "r_globals s1 = r_globals s"
    and f: "r_functions s1 = r_functions s
              @ [declared_symbol (int (length (r_functions s))) decl]"
    by (auto simp: declare_function_def declared_symbol_def Let_def split: if_splits)
  from "3.IH" [OF s(1) s(2)] show ?case
    by (simp add: g f add.commute)
qed

lemma resolve_globals_keeps:
  "resolve_globals gs s = Inr s' \<Longrightarrow> r_functions s' = r_functions s \<and> r_globals s' = r_globals s"
proof (induction gs s arbitrary: s' rule: resolve_globals.induct)
  case (1 s)
  then show ?case by simp
next
  case (2 g gs s)
  from "2.prems" obtain s1 where
    s: "resolve_expr (vd_initializer (gv_decl g)) s = Inr s1" "resolve_globals gs s1 = Inr s'"
    by (simp split: sum.splits)
  from "2.IH" [OF s(1) s(2)] resolve_expr_keeps(1) [OF s(1)] show ?case by simp
qed

lemma resolve_functions_effect:
  "resolve_functions fs s = Inr s' \<Longrightarrow> distinct fs \<Longrightarrow>
   (\<forall>f \<in> set fs. f < length (r_functions s) \<and> fs_locals (r_functions s ! f) = []) \<Longrightarrow>
     length (r_functions s') = length (r_functions s) \<and>
     (\<forall>i < length (r_functions s).
        r_functions s' ! i = (if i \<in> set fs then finish (r_functions s ! i) else r_functions s ! i)) \<and>
     r_globals s' = r_globals s"
proof (induction fs s arbitrary: s' rule: resolve_functions.induct)
  case (1 s)
  then show ?case by simp
next
  case (2 f fs s)
  from "2.prems"(1) obtain s1 where
    s: "resolve_function f s = Inr s1" "resolve_functions fs s1 = Inr s'"
    by (simp split: sum.splits)
  from "2.prems"(3) have f: "f < length (r_functions s)" "fs_locals (r_functions s ! f) = []"
    by simp_all
  note e = resolve_function_effect [OF s(1) f]
  have e1: "r_functions s1 = (r_functions s)[f := finish (r_functions s ! f)]"
    by (simp add: e(1) finish_def)
  have d: "distinct fs" "f \<notin> set fs"
    using "2.prems"(2) by simp_all
  have pre: "\<forall>g \<in> set fs. g < length (r_functions s1) \<and> fs_locals (r_functions s1 ! g) = []"
    using "2.prems"(3) d(2) by (auto simp: e1 nth_list_update)
  note ih = "2.IH" [OF s(1) s(2) d(1) pre]
  show ?case
  proof (intro conjI allI impI)
    show "length (r_functions s') = length (r_functions s)"
      using ih by (simp add: e1)
    show "r_globals s' = r_globals s"
      using ih e(2) by simp
    fix i
    assume i: "i < length (r_functions s)"
    then have "r_functions s' ! i
        = (if i \<in> set fs then finish (r_functions s1 ! i) else r_functions s1 ! i)"
      using ih by (simp add: e1)
    then show "r_functions s' ! i
        = (if i \<in> set (f # fs) then finish (r_functions s ! i) else r_functions s ! i)"
      using d(2) i f(1) by (auto simp: e1 nth_list_update)
  qed
qed


lemma symbols_from_nth:
  "i < length ds \<Longrightarrow> symbols_from mk k ds ! i = mk (k + int i) (ds ! i)"
  by (induction mk k ds arbitrary: i rule: symbols_from.induct)
     (auto simp: nth_Cons' algebra_simps)

lemma length_symbols_from [simp]: "length (symbols_from mk k ds) = length ds"
  by (induction mk k ds rule: symbols_from.induct) simp_all

lemma symbols_from_eqI:
  assumes "length fns = length ds" and "\<And>i. i < length ds \<Longrightarrow> fns ! i = mk (k + int i) (ds ! i)"
  shows "fns = symbols_from mk k ds"
  using assms by (intro nth_equalityI) (simp_all add: symbols_from_nth)

lemma finish_declared [simp]: "finish (declared_symbol i d) = resolved_symbol i d"
  by (simp add: finish_def declared_symbol_def resolved_symbol_def)

lemma resolve_effect:
  assumes "resolve prog = Inr r"
  shows "rp_globals r = global_variables 0 (global_decls prog)"
    and "rp_functions r = symbols_from resolved_symbol 0 (function_decls prog)"
proof -
  from assms obtain s1 s2 s3 where
    s: "declare_top_level prog (Resolver_init prog) = Inr s1"
       "resolve_globals (r_globals s1) (s1\<lparr>scopes := [global_scope s1]\<rparr>) = Inr s2"
       "resolve_functions [0..<length (r_functions s2)] s2 = Inr s3"
       "rp_globals r = r_globals s3" "rp_functions r = r_functions s3"
    by (auto simp: resolve_def split: sum.splits)
  from declare_top_level_effect [OF s(1)]
  have g1: "r_globals s1 = global_variables 0 (global_decls prog)"
    and f1: "r_functions s1 = symbols_from declared_symbol 0 (function_decls prog)"
    by (simp_all add: Resolver_init_def)
  from resolve_globals_keeps [OF s(2)]
  have g2: "r_globals s2 = r_globals s1" and f2: "r_functions s2 = r_functions s1"
    by simp_all
  have pre: "\<forall>f \<in> set [0..<length (r_functions s2)].
               f < length (r_functions s2) \<and> fs_locals (r_functions s2 ! f) = []"
    by (simp add: f2 f1 symbols_from_nth declared_symbol_def)
  from resolve_functions_effect [OF s(3) distinct_upt pre]
  have l3: "length (r_functions s3) = length (r_functions s2)"
    and n3: "\<And>i. i < length (r_functions s2) \<Longrightarrow> r_functions s3 ! i = finish (r_functions s2 ! i)"
    and g3: "r_globals s3 = r_globals s2"
    by simp_all
  show "rp_globals r = global_variables 0 (global_decls prog)"
    by (simp add: s(4) g3 g2 g1)
  show "rp_functions r = symbols_from resolved_symbol 0 (function_decls prog)"
    unfolding s(5)
  proof (rule symbols_from_eqI)
    show "length (r_functions s3) = length (function_decls prog)"
      by (simp add: l3 f2 f1)
    fix i
    assume "i < length (function_decls prog)"
    then show "r_functions s3 ! i = resolved_symbol (0 + int i) (function_decls prog ! i)"
      by (simp add: n3 f2 f1 symbols_from_nth)
  qed
qed


lemma index_local_bindings:
  "map binding_index (local_bindings i ds) = map (\<lambda>k. i + int k) [0..<length ds]"
proof (induction i ds rule: local_bindings.induct)
  case (1 i)
  then show ?case by simp
next
  case (2 i n m ds)
  have "map (\<lambda>k. i + int k) [0..<Suc (length ds)]
          = i # map (\<lambda>k. i + 1 + int k) [0..<length ds]"
    by (simp add: upt_conv_Cons map_Suc_upt [symmetric] del: upt_Suc)
  with 2 show ?case by simp
qed

lemma index_global_variables:
  "map (binding_index \<circ> gv_binding) (global_variables i ds)
     = map (\<lambda>k. i + int k) [0..<length ds]"
proof (induction i ds rule: global_variables.induct)
  case (1 i)
  then show ?case by simp
next
  case (2 i d ds)
  have "map (\<lambda>k. i + int k) [0..<Suc (length ds)]
          = i # map (\<lambda>k. i + 1 + int k) [0..<length ds]"
    by (simp add: upt_conv_Cons map_Suc_upt [symmetric] del: upt_Suc)
  with 2 show ?case by simp
qed

lemma length_global_variables [simp]: "length (global_variables i ds) = length ds"
  by (induction i ds rule: global_variables.induct) simp_all

lemma decl_symbols_from:
  "(\<And>i d. fs_decl (mk i d) = d) \<Longrightarrow> map fs_decl (symbols_from mk k ds) = ds"
  by (induction mk k ds rule: symbols_from.induct) simp_all

lemma in_symbols_from:
  "f \<in> set (symbols_from mk k ds) \<Longrightarrow> \<exists>i d. f = mk i d"
  by (induction mk k ds rule: symbols_from.induct) auto

lemma take_local_bindings:
  "take (length xs) (local_bindings i (xs @ ys)) = local_bindings i xs"
  by (simp add: local_bindings_append)

text \<open>
  C7. After resolution the globals are the top-level variable declarations in order of
  declaration, with slot indices 0, 1, 2, ...; the locals of every function are its
  parameters followed by the \<open>let\<close>/\<open>var\<close> declarations of its body in order of
  appearance, with slot indices 0, 1, 2, ...: the parameters take the first indices, every
  declaration has an index of its own (none is reused by a sibling or nested block),
  and \<open>max_locals\<close> is the number of locals.
\<close>

theorem slot_assignment:
  assumes "resolve prog = Inr r"
  shows "rp_globals r = global_variables 0 (global_decls prog) \<and>
         map (binding_index \<circ> gv_binding) (rp_globals r)
           = map int [0..<length (rp_globals r)] \<and>
         map fs_decl (rp_functions r) = function_decls prog \<and>
         (\<forall>f \<in> set (rp_functions r).
            fs_arity f = int (length (fd_params (fs_decl f))) \<and>
            fs_locals f = function_locals (fs_decl f) \<and>
            take (length (fd_params (fs_decl f))) (fs_locals f)
              = local_bindings 0 (map (\<lambda>p. (p, True)) (fd_params (fs_decl f))) \<and>
            length (fs_locals f)
              = length (fd_params (fs_decl f)) + length (stmts_decls (fd_body (fs_decl f))) \<and>
            map binding_index (fs_locals f) = map int [0..<length (fs_locals f)] \<and>
            distinct (map binding_index (fs_locals f)) \<and>
            fs_max_locals f = int (length (fs_locals f)))"
proof -
  note e = resolve_effect [OF assms]
  have g: "map (binding_index \<circ> gv_binding) (rp_globals r) = map int [0..<length (rp_globals r)]"
    by (simp add: e(1) index_global_variables)
  have d: "map fs_decl (rp_functions r) = function_decls prog"
    unfolding e(2) by (rule decl_symbols_from) (simp add: resolved_symbol_def declared_symbol_def)
  have l: "fs_arity f = int (length (fd_params (fs_decl f))) \<and>
            fs_locals f = function_locals (fs_decl f) \<and>
            take (length (fd_params (fs_decl f))) (fs_locals f)
              = local_bindings 0 (map (\<lambda>p. (p, True)) (fd_params (fs_decl f))) \<and>
            length (fs_locals f)
              = length (fd_params (fs_decl f)) + length (stmts_decls (fd_body (fs_decl f))) \<and>
            map binding_index (fs_locals f) = map int [0..<length (fs_locals f)] \<and>
            distinct (map binding_index (fs_locals f)) \<and>
            fs_max_locals f = int (length (fs_locals f))"
    if "f \<in> set (rp_functions r)" for f
  proof -
    from that obtain i d where f: "f = resolved_symbol i d"
      unfolding e(2) by (auto dest: in_symbols_from)
    have idx: "map binding_index (fs_locals f) = map int [0..<length (fs_locals f)]"
      by (simp add: f resolved_symbol_def declared_symbol_def function_locals_def
            index_local_bindings)
    have "distinct (map int [0..<length (fs_locals f)])"
      by (simp add: distinct_map)
    with idx have dist: "distinct (map binding_index (fs_locals f))"
      by simp
    have tk: "take (length (fd_params (fs_decl f))) (fs_locals f)
              = local_bindings 0 (map (\<lambda>p. (p, True)) (fd_params (fs_decl f)))"
      using take_local_bindings [of "map (\<lambda>p. (p, True)) (fd_params d)" 0 "stmts_decls (fd_body d)"]
      by (simp add: f resolved_symbol_def declared_symbol_def function_locals_def)
    show ?thesis
      using idx dist tk
      by (simp add: f resolved_symbol_def declared_symbol_def function_locals_def)
  qed
  from e(1) g d l show ?thesis
    by blast
qed

lemma succeeds_result: "succeeds x \<Longrightarrow> x = Inr (the_result x)"
  by (cases x) (simp_all add: succeeds_def the_result_def)

theorem slot_assignment_witness:
  "resolve slots_program = Inr (resolved slots_program) \<and>
   map gv_binding (rp_globals (resolved slots_program))
     = [GlobalBinding ''g'' True 0, GlobalBinding ''h'' False 1] \<and>
   fs_locals (rp_functions (resolved slots_program) ! 0)
     = [LocalBinding ''a'' True 0, LocalBinding ''b'' True 1, LocalBinding ''x'' True 2,
        LocalBinding ''y'' False 3, LocalBinding ''y'' True 4] \<and>
   fs_max_locals (rp_functions (resolved slots_program) ! 0) = 5"
proof -
  have "succeeds (resolve slots_program)"
    by code_simp
  then have h: "resolve slots_program = Inr (resolved slots_program)"
    unfolding resolved_def by (rule succeeds_result)
  note t = slot_assignment [OF h]
  from t have g: "rp_globals (resolved slots_program) = global_variables 0 (global_decls slots_program)"
    by simp
  from t have d: "map fs_decl (rp_functions (resolved slots_program)) = function_decls slots_program"
    by simp
  have "length (map fs_decl (rp_functions (resolved slots_program))) = 1"
    unfolding d by (simp add: slots_program_def)
  then have len: "length (rp_functions (resolved slots_program)) = 1"
    by simp
  then have mem: "rp_functions (resolved slots_program) ! 0 \<in> set (rp_functions (resolved slots_program))"
    by simp
  have "map fs_decl (rp_functions (resolved slots_program)) ! 0 = function_decls slots_program ! 0"
    unfolding d ..
  then have d0: "fs_decl (rp_functions (resolved slots_program) ! 0) = function_decls slots_program ! 0"
    using len by simp
  from t mem have f: "fs_locals (rp_functions (resolved slots_program) ! 0)
        = function_locals (fs_decl (rp_functions (resolved slots_program) ! 0))"
    and m: "fs_max_locals (rp_functions (resolved slots_program) ! 0)
        = int (length (fs_locals (rp_functions (resolved slots_program) ! 0)))"
    by blast+
  show ?thesis
    using h by (simp add: g f m d0) (simp add: slots_program_def function_locals_def)
qed

section \<open>Properties of the compiler and the disassembler\<close>

subsection \<open>The line table\<close>

lemma balanced_write [simp]: "balanced (chunk_write b l c) = balanced c"
  by (simp add: balanced_def chunk_write_def)

lemma balanced_emit [simp]: "balanced (emit oc l c) = balanced c"
  by (simp add: emit_def)

lemma balanced_emit_u16 [simp]: "balanced (emit_u16 v l c) = balanced c"
  by (simp add: emit_u16_def write_u16_def)

lemma balanced_emits [simp]:
  "balanced (emit_load_local i l c) = balanced c"
  "balanced (emit_store_local i l c) = balanced c"
  "balanced (emit_load_global i l c) = balanced c"
  "balanced (emit_store_global i l c) = balanced c"
  "balanced (emit_call f n l c) = balanced c"
  "balanced (emit_loop s l c) = balanced c"
  by (simp_all add: emit_load_local_def emit_store_local_def emit_load_global_def
        emit_store_global_def emit_call_def emit_loop_def)

lemma balanced_add_constant [simp]: "balanced (snd (add_constant v c)) = balanced c"
  by (simp add: add_constant_def balanced_def Let_def)

lemma balanced_emit_jump [simp]: "balanced (snd (emit_jump oc l c)) = balanced c"
  by (simp add: emit_jump_def Let_def)

lemma py_set_length: "py_set xs i v = Some ys \<Longrightarrow> length ys = length xs"
  by (auto simp: py_set_def Let_def split: if_splits)

lemma balanced_patch_u16: "patch_u16 off v c = Inr c' \<Longrightarrow> balanced c' = balanced c"
  by (auto simp: patch_u16_def balanced_def dest!: py_set_length split: option.splits)

lemma balanced_patch_jump: "patch_jump off c = Inr c' \<Longrightarrow> balanced c' = balanced c"
  by (auto simp: patch_jump_def dest: balanced_patch_u16)

lemma balanced_compile_expr:
  "compile_expr r e c = Inr c' \<Longrightarrow> balanced c \<Longrightarrow> balanced c'"
  "compile_exprs r es c = Inr c' \<Longrightarrow> balanced c \<Longrightarrow> balanced c'"
proof (induction r e c and r es c arbitrary: c' and c' rule: compile_expr_compile_exprs.induct)
  case (1 r line v c)
  then show ?case
    by (cases "add_constant v c") (use balanced_add_constant [of v c] in auto)
next
  case (2 r n line name c)
  then show ?case
    by (auto simp: split: sum.splits VarBinding.splits)
next
  case (3 r n line name v c)
  then show ?case
    by (auto split: sum.splits VarBinding.splits)
next
  case (4 r line left operator right c)
  then show ?case
    by (auto split: sum.splits option.splits)
next
  case (5 r n line callee arguments c)
  then show ?case
    by (auto split: sum.splits option.splits)
next
  case (6 r c)
  then show ?case by simp
next
  case (7 r a as c)
  then show ?case
    by (auto split: sum.splits)
qed

lemma balanced_compile_var_decl:
  "compile_var_decl r d c = Inr c' \<Longrightarrow> balanced c \<Longrightarrow> balanced c'"
  by (auto simp: compile_var_decl_def dest: balanced_compile_expr split: sum.splits VarBinding.splits)

lemma emit_jump_balanced: "emit_jump oc l c = (off, c') \<Longrightarrow> balanced c' = balanced c"
  using balanced_emit_jump [of oc l c] by simp

lemma balanced_compile_stmt:
  "compile_stmt r st c = Inr c' \<Longrightarrow> balanced c \<Longrightarrow> balanced c'"
  "compile_block r sts c = Inr c' \<Longrightarrow> balanced c \<Longrightarrow> balanced c'"
proof (induction r st c and r sts c arbitrary: c' and c' rule: compile_stmt_compile_block.induct)
  case (1 r decl c)
  then show ?case by (auto dest: balanced_compile_var_decl)
next
  case (2 r statements c)
  then show ?case by simp
next
  case (3 r line e c)
  then show ?case by (auto dest: balanced_compile_expr split: sum.splits)
next
  case (4 r line e c)
  then show ?case by (auto dest: balanced_compile_expr split: sum.splits)
next
  case (5 r line condition then_branch c)
  from "5.prems" obtain c1 je c2 c3 where
    s: "compile_expr r condition c = Inr c1" "emit_jump JMP_IF_FALSE line c1 = (je, c2)"
       "compile_stmt r then_branch c2 = Inr c3" "patch_jump je c3 = Inr c'"
    by (auto split: sum.splits prod.splits)
  have b1: "balanced c1" using s(1) "5.prems"(2) by (rule balanced_compile_expr)
  have b2: "balanced c2" using emit_jump_balanced [OF s(2)] b1 by simp
  have b3: "balanced c3" using "5.IH" [OF s(1) s(2) [symmetric] s(3) b2] .
  show ?case using balanced_patch_jump [OF s(4)] b3 by simp
next
  case (6 r line condition then_branch else_branch c)
  from "6.prems" obtain c1 je c2 c3 jn c4 c5 c6 where
    s: "compile_expr r condition c = Inr c1" "emit_jump JMP_IF_FALSE line c1 = (je, c2)"
       "compile_stmt r then_branch c2 = Inr c3" "emit_jump JMP line c3 = (jn, c4)"
       "patch_jump je c4 = Inr c5" "compile_stmt r else_branch c5 = Inr c6"
       "patch_jump jn c6 = Inr c'"
    by (auto split: sum.splits prod.splits)
  have b1: "balanced c1" using s(1) "6.prems"(2) by (rule balanced_compile_expr)
  have b2: "balanced c2" using emit_jump_balanced [OF s(2)] b1 by simp
  have b3: "balanced c3" using "6.IH"(1) [OF s(1) s(2) [symmetric] s(3) b2] .
  have b4: "balanced c4" using emit_jump_balanced [OF s(4)] b3 by simp
  have b5: "balanced c5" using balanced_patch_jump [OF s(5)] b4 by simp
  have b6: "balanced c6"
    using "6.IH"(2) [OF s(1) s(2) [symmetric] s(3) s(4) [symmetric] s(5) s(6) b5] .
  show ?case using balanced_patch_jump [OF s(7)] b6 by simp
next
  case (7 r line condition body c)
  from "7.prems" obtain c1 je c2 c3 where
    s: "compile_expr r condition c = Inr c1" "emit_jump JMP_IF_FALSE line c1 = (je, c2)"
       "compile_stmt r body c2 = Inr c3"
       "patch_jump je (emit_loop (int (length (code c))) line c3) = Inr c'"
    by (auto simp: Let_def split: sum.splits prod.splits)
  have b1: "balanced c1" using s(1) "7.prems"(2) by (rule balanced_compile_expr)
  have b2: "balanced c2" using emit_jump_balanced [OF s(2)] b1 by simp
  have b3: "balanced c3" using "7.IH" [OF refl s(1) s(2) [symmetric] s(3) b2] .
  show ?case using balanced_patch_jump [OF s(4)] b3 by simp
next
  case (8 r line e c)
  then show ?case by (auto dest: balanced_compile_expr split: sum.splits)
next
  case (9 r c)
  then show ?case by simp
next
  case (10 r st sts c)
  then show ?case by (auto split: sum.splits)
qed


lemma balanced_compile_function:
  "compile_function r symbol = Inr f \<Longrightarrow> balanced (bf_chunk f)"
  by (auto simp: compile_function_def empty_chunk_def balanced_def [of "\<lparr>code = [], lines = [], constants = []\<rparr>"]
           dest!: balanced_compile_stmt(2) split: sum.splits)

lemma balanced_compile_global_inits:
  "compile_global_inits r gs c = Inr c' \<Longrightarrow> balanced c \<Longrightarrow> balanced c'"
proof (induction gs arbitrary: c)
  case Nil
  then show ?case by simp
next
  case (Cons g gs)
  then show ?case
    by (auto dest: balanced_compile_expr(1) split: sum.splits)
qed

lemma balanced_compile_entry_function:
  "compile_entry_function r = Inr f \<Longrightarrow> balanced (bf_chunk f)"
proof -
  assume a: "compile_entry_function r = Inr f"
  have e: "balanced empty_chunk"
    by (simp add: empty_chunk_def balanced_def)
  from a obtain c1 where g: "compile_global_inits r (rp_globals r) empty_chunk = Inr c1"
    by (auto simp: compile_entry_function_def split: sum.splits)
  from balanced_compile_global_inits [OF g e] g a show ?thesis
    by (auto simp: compile_entry_function_def Let_def split: sum.splits option.splits)
qed

lemma py_set_set: "py_set xs i v = Some ys \<Longrightarrow> set ys \<subseteq> insert v (set xs)"
  by (auto simp: py_set_def Let_def split: if_splits dest: subsetD [OF set_update_subset_insert])

lemma balanced_compile_functions:
  "compile_functions r symbols fns = Inr fns' \<Longrightarrow>
   (\<forall>f. Some f \<in> set fns \<longrightarrow> balanced (bf_chunk f)) \<Longrightarrow>
   (\<forall>f. Some f \<in> set fns' \<longrightarrow> balanced (bf_chunk f))"
proof (induction symbols arbitrary: fns)
  case Nil
  then show ?case by simp
next
  case (Cons symbol symbols)
  from Cons.prems(1) obtain compiled fns1 where
    s: "compile_function r symbol = Inr compiled"
       "py_set fns (fs_index symbol) (Some compiled) = Some fns1"
       "compile_functions r symbols fns1 = Inr fns'"
    by (auto split: sum.splits option.splits)
  have "\<forall>f. Some f \<in> set fns1 \<longrightarrow> balanced (bf_chunk f)"
    using py_set_set [OF s(2)] balanced_compile_function [OF s(1)] Cons.prems(2) by auto
  from Cons.IH [OF s(3) this] show ?case .
qed

lemma balanced_compile:
  assumes "compile r = Inr p" and "f \<in> set (bp_functions p)"
  shows "balanced (bf_chunk f)"
proof -
  from assms(1) obtain fns entry_fn where
    s: "compile_functions r (rp_functions r) (replicate (length (rp_functions r)) None) = Inr fns"
       "compile_entry_function r = Inr entry_fn"
       "bp_functions p = List.map_filter (\<lambda>fn. fn) fns @ [entry_fn]"
    by (auto simp: compile_def Let_def split: sum.splits)
  have "\<forall>f. Some f \<in> set fns \<longrightarrow> balanced (bf_chunk f)"
    by (rule balanced_compile_functions [OF s(1)]) simp
  with assms(2) s(3) balanced_compile_entry_function [OF s(2)] show ?thesis
    by (auto simp: List.map_filter_def)
qed

lemma py_get_nat: "py_get xs (int n) = Some x \<Longrightarrow> n < length xs \<and> xs ! n = x"
  by (auto simp: py_get_def Let_def split: if_splits)

lemma disassemble_instruction_line:
  assumes "disassemble_instruction f p offset = Inr (text, offset')"
  shows "offset < offset' \<and> offset < length (lines (bf_chunk f)) \<and>
         (\<exists>rest. text = fmt_04 (int offset) @ '' line ''
                     @ rjust 3 (py_str (lines (bf_chunk f) ! offset)) @ '' '' @ rest)"
proof -
  from assms obtain line where l: "py_get (lines (bf_chunk f)) (int offset) = Some line"
    by (auto simp: disassemble_instruction_def Let_def split: option.splits)
  from py_get_nat [OF l] have l': "offset < length (lines (bf_chunk f))"
    "lines (bf_chunk f) ! offset = line" by simp_all
  from assms l have "offset < offset' \<and>
         (\<exists>rest. text = fmt_04 (int offset) @ '' line '' @ rjust 3 (py_str line) @ '' '' @ rest)"
    by (auto simp: disassemble_instruction_def disasm_read_u16_def Let_def
             split: option.splits if_splits sum.splits prod.splits)
  with l' show ?thesis by simp
qed

text \<open>
  C6, as the claim states it, fails: \<open>Chunk.write\<close> appends a line for every byte, operands
  included. The body of \<open>fn main() { return 0; }\<close> compiles to four bytes with four line
  entries, and the disassembler decodes two instructions from them.
\<close>

theorem line_table_counterexample:
  "lines (bf_chunk (bp_functions (compiled return0_program) ! 0)) = [2, 2, 2, 2] \<and>
   code (bf_chunk (bp_functions (compiled return0_program) ! 0)) = [0, 0, 0, 12] \<and>
   disassemble_function (bp_functions (compiled return0_program) ! 0) (compiled return0_program)
     = Inr [''0000 line   2 PUSH_CONST    #0 (0)'', ''0003 line   2 RET'']"
  by code_simp

text \<open>
  C6, amended. In every chunk of a compiled program the line table is parallel to the
  code byte for byte: it has as many entries as the code has bytes. For each instruction
  it decodes, the disassembler prints the offset of the opcode byte and the line entry
  at that offset.
\<close>

theorem line_table_is_per_byte:
  "(compile r = Inr p \<longrightarrow>
      (\<forall>f \<in> set (bp_functions p). length (lines (bf_chunk f)) = length (code (bf_chunk f)))) \<and>
   (disassemble_instruction func prog offset = Inr (entry, offset') \<longrightarrow>
      offset < offset' \<and> offset < length (lines (bf_chunk func)) \<and>
      (\<exists>rest. entry = fmt_04 (int offset) @ '' line ''
                  @ rjust 3 (py_str (lines (bf_chunk func) ! offset)) @ '' '' @ rest))"
  using balanced_compile [of r p] disassemble_instruction_line [of func prog offset entry offset']
  by (auto simp: balanced_def)

theorem line_table_is_per_byte_witness:
  "compile (resolved return0_program) = Inr (compiled return0_program) \<and>
   length (lines (bf_chunk (bp_functions (compiled return0_program) ! 0)))
     = length (code (bf_chunk (bp_functions (compiled return0_program) ! 0))) \<and>
   disassemble_instruction (bp_functions (compiled return0_program) ! 0)
       (compiled return0_program) 0
     = Inr (''0000 line   2 PUSH_CONST    #0 (0)'', 3) \<and>
   (\<exists>rest. ''0000 line   2 PUSH_CONST    #0 (0)'' = fmt_04 (int 0) @ '' line ''
       @ rjust 3 (py_str (lines (bf_chunk (bp_functions (compiled return0_program) ! 0)) ! 0))
       @ '' '' @ rest)"
proof -
  have h1: "compile (resolved return0_program) = Inr (compiled return0_program)"
    by code_simp
  have h2: "disassemble_instruction (bp_functions (compiled return0_program) ! 0)
       (compiled return0_program) 0 = Inr (''0000 line   2 PUSH_CONST    #0 (0)'', 3)"
    by code_simp
  have "0 < length (bp_functions (compiled return0_program))"
    by code_simp
  then have h3: "bp_functions (compiled return0_program) ! 0
                   \<in> set (bp_functions (compiled return0_program))"
    by (rule nth_mem)
  show ?thesis
    using line_table_is_per_byte [of "resolved return0_program" "compiled return0_program"
        "bp_functions (compiled return0_program) ! 0" "compiled return0_program" 0
        "''0000 line   2 PUSH_CONST    #0 (0)''" 3] h1 h2 h3
    by simp
qed

section \<open>Compiled code on the machine\<close>

subsection \<open>Instruction sequences\<close>

lemma u16_decode:
  assumes "0 \<le> i" "i < 65536"
  shows "push_bit 8 (drop_bit 8 i AND 0xFF) OR (i AND 0xFF) = (i :: int)"
proof -
  have m: "(0xFF :: int) = mask 8"
    by (simp add: mask_eq_exp_minus_1)
  have t: "take_bit 16 i = i"
    using assms by (simp add: take_bit_int_eq_self)
  have a: "drop_bit 8 i AND 0xFF = take_bit 8 (drop_bit 8 i)"
    and b: "i AND 0xFF = take_bit 8 i"
    by (simp_all only: m take_bit_eq_mask)
  have "push_bit 8 (take_bit 8 (drop_bit 8 i)) OR take_bit 8 i = take_bit 16 i"
    by (rule bit_eqI) (auto simp: bit_simps)
  then show ?thesis
    by (simp only: a b t)
qed

lemma write_u16_bytes:
  "write_u16 v line c = c\<lparr>code := code c @ u16_bytes v, lines := lines c @ [line, line]\<rparr>"
  by (simp add: write_u16_def chunk_write_def u16_bytes_def)


lemma cur_frame_set_ip [simp]:
  "cf_ip (cur_frame (set_ip i vm)) = i"
  "cf_function (cur_frame (set_ip i vm)) = cf_function (cur_frame vm)"
  "cf_stack_base (cur_frame (set_ip i vm)) = cf_stack_base (cur_frame vm)"
  by (simp_all add: set_ip_def cur_frame_def)

lemma set_ip_set_ip [simp]: "set_ip j (set_ip i vm) = set_ip j vm"
  by (simp add: set_ip_def cur_frame_def)

lemma frames_set_ip [simp]: "vm_frames (set_ip i vm) \<noteq> []"
  by (simp add: set_ip_def)

lemma set_ip_globals [simp]: "vm_globals (set_ip i vm) = vm_globals vm"
  by (simp add: set_ip_def)

lemma cur_frame_stack_update [simp]: "cur_frame (vm\<lparr>vm_stack := st\<rparr>) = cur_frame vm"
  by (simp add: cur_frame_def)

lemma cur_frame_globals_update [simp]: "cur_frame (vm\<lparr>vm_globals := g\<rparr>) = cur_frame vm"
  by (simp add: cur_frame_def)

lemma set_ip_stack_update [simp]:
  "set_ip i (vm\<lparr>vm_stack := st\<rparr>) = (set_ip i vm)\<lparr>vm_stack := st\<rparr>"
  by (simp add: set_ip_def cur_frame_def)

lemma set_ip_globals_update [simp]:
  "set_ip i (vm\<lparr>vm_globals := g\<rparr>) = (set_ip i vm)\<lparr>vm_globals := g\<rparr>"
  by (simp add: set_ip_def cur_frame_def)

lemma code_at_get:
  assumes "code_at vm bytes" and "k < length bytes"
  shows "py_get (code (bf_chunk (cf_function (cur_frame vm)))) (cf_ip (cur_frame vm) + int k)
           = Some (bytes ! k)"
    and "cf_ip (cur_frame vm) + int k < int (length (code (bf_chunk (cf_function (cur_frame vm)))))"
proof -
  let ?c = "code (bf_chunk (cf_function (cur_frame vm)))"
  let ?ip = "cf_ip (cur_frame vm)"
  from assms(1) have ip: "0 \<le> ?ip" and t: "take (length bytes) (drop (nat ?ip) ?c) = bytes"
    by (simp_all add: code_at_def)
  from t have "length (take (length bytes) (drop (nat ?ip) ?c)) = length bytes"
    by simp
  then have "length bytes \<le> length (drop (nat ?ip) ?c)"
    by (simp add: min_def split: if_splits)
  with assms(2) have k: "nat ?ip + k < length ?c"
    by simp
  have "take (length bytes) (drop (nat ?ip) ?c) ! k = drop (nat ?ip) ?c ! k"
    using assms(2) by simp
  then have "bytes ! k = drop (nat ?ip) ?c ! k"
    by (simp only: t)
  also have "\<dots> = ?c ! (nat ?ip + k)"
    using k by simp
  finally have n: "bytes ! k = ?c ! (nat ?ip + k)" .
  from ip k show "?ip + int k < int (length ?c)"
    by linarith
  with ip n show "py_get ?c (?ip + int k) = Some (bytes ! k)"
    by (simp add: py_get_def nat_add_distrib)
qed

lemma code_at_fetched:
  "code_at vm (opcode_value oc # bytes) \<Longrightarrow> fetched vm oc"
  using code_at_get [of vm "opcode_value oc # bytes" 0]
  by (simp add: fetched_def code_at_def)

lemma read_u16_at:
  assumes "py_get (code (bf_chunk (cf_function (cur_frame vm)))) (cf_ip (cur_frame vm)) = Some hi"
    and "py_get (code (bf_chunk (cf_function (cur_frame vm)))) (cf_ip (cur_frame vm) + 1) = Some lo"
  shows "read_u16 vm = Inr (push_bit 8 hi OR lo, set_ip (cf_ip (cur_frame vm) + 2) vm)"
  using assms by (simp add: read_u16_def Let_def)


lemma pop_top: "vm_stack vm = st @ [v] \<Longrightarrow> pop vm = Inr (v, vm\<lparr>vm_stack := st\<rparr>)"
  by (simp add: pop_def)

lemma py_get_in: "0 \<le> i \<Longrightarrow> i < int (length xs) \<Longrightarrow> py_get xs i = Some (xs ! nat i)"
  by (simp add: py_get_def)

lemma py_set_in: "0 \<le> i \<Longrightarrow> i < int (length xs) \<Longrightarrow> py_set xs i v = Some (xs[nat i := v])"
  by (simp add: py_set_def)

lemma read_u16_code_at:
  assumes that: "cf_function (cur_frame vm') = cf_function (cur_frame vm)"
    and c: "code_at vm bytes" and k: "k + 1 < length bytes"
    and h: "bytes ! k = drop_bit 8 i AND 0xFF" and l: "bytes ! (k + 1) = i AND 0xFF"
    and i: "0 \<le> i" "i < 65536"
  shows "read_u16 (set_ip (cf_ip (cur_frame vm) + int k) vm')
           = Inr (i, set_ip (cf_ip (cur_frame vm) + int k + 2) vm')"
proof -
  from code_at_get(1) [OF c, of k] k h
  have hi: "py_get (code (bf_chunk (cf_function (cur_frame vm)))) (cf_ip (cur_frame vm) + int k)
              = Some (drop_bit 8 i AND 0xFF)"
    by simp
  from code_at_get(1) [OF c, of "k + 1"] k l
  have lo: "py_get (code (bf_chunk (cf_function (cur_frame vm)))) (cf_ip (cur_frame vm) + int k + 1)
              = Some (i AND 0xFF)"
    by (simp add: algebra_simps)
  show ?thesis
    using hi lo that u16_decode [OF i]
    by (simp add: read_u16_at)
qed

lemma step_code_at:
  assumes "code_at vm bytes" and "k < length bytes" and "bytes ! k = opcode_value oc"
    and "cf_function (cur_frame vm') = cf_function (cur_frame vm)"
  shows "step (set_ip (cf_ip (cur_frame vm) + int k) vm')
           = exec_op oc (set_ip (cf_ip (cur_frame vm) + int k + 1) vm')"
proof -
  from code_at_get [OF assms(1,2)] assms(3,4)
  have "fetched (set_ip (cf_ip (cur_frame vm) + int k) vm') oc"
    by (simp add: fetched_def)
  from step_fetched [OF this] show ?thesis
    by simp
qed

lemma set_ip_same: "vm_frames vm \<noteq> [] \<Longrightarrow> set_ip (cf_ip (cur_frame vm)) vm = vm"
  by (simp add: set_ip_def cur_frame_def)

lemma store_then_load_local:
  assumes c: "code_at vm ([opcode_value STORE_LOCAL] @ u16_bytes i @ [opcode_value LOAD_LOCAL] @ u16_bytes i)"
    and i: "0 \<le> i" "i < 65536"
    and st: "vm_stack vm = st @ [v]"
    and slot: "0 \<le> cf_stack_base (cur_frame vm) + i"
              "cf_stack_base (cur_frame vm) + i < int (length st)"
  shows "then_do (step vm) step =
           Inr ((set_ip (cf_ip (cur_frame vm) + 6) vm)
                  \<lparr>vm_stack := st[nat (cf_stack_base (cur_frame vm) + i) := v] @ [v]\<rparr>)"
proof -
  let ?ip = "cf_ip (cur_frame vm)"
  let ?bytes = "[opcode_value STORE_LOCAL] @ u16_bytes i @ [opcode_value LOAD_LOCAL] @ u16_bytes i"
  let ?slot = "cf_stack_base (cur_frame vm) + i"
  have fr: "vm_frames vm \<noteq> []"
    using c by (simp add: code_at_def)
  have "step (set_ip (?ip + int 0) vm) = exec_op STORE_LOCAL (set_ip (?ip + int 0 + 1) vm)"
    by (rule step_code_at [OF c]) simp_all
  then have s1: "step vm = exec_op STORE_LOCAL (set_ip (?ip + 1) vm)"
    using fr by (simp add: set_ip_same)
  have "read_u16 (set_ip (?ip + int 1) vm) = Inr (i, set_ip (?ip + int 1 + 2) vm)"
    by (rule read_u16_code_at [OF refl c _ _ _ i]) (simp_all add: u16_bytes_def)
  then have r1: "read_u16 (set_ip (?ip + 1) vm) = Inr (i, set_ip (?ip + 3) vm)"
    by (simp add: algebra_simps)
  let ?vm1 = "(set_ip (?ip + 3) vm)\<lparr>vm_stack := st[nat ?slot := v]\<rparr>"
  have sl: "store_local i (set_ip (?ip + 3) vm) = Inr ?vm1"
    using st slot
    by (simp add: store_local_def then_do_def pop_top [of _ st v] py_set_in)
  have e1: "step vm = Inr ?vm1"
    by (simp add: s1 r1 sl then_do_def)
  have f1: "cf_function (cur_frame (vm\<lparr>vm_stack := st[nat ?slot := v]\<rparr>)) = cf_function (cur_frame vm)"
    by simp
  have "step (set_ip (?ip + int 3) (vm\<lparr>vm_stack := st[nat ?slot := v]\<rparr>))
          = exec_op LOAD_LOCAL (set_ip (?ip + int 3 + 1) (vm\<lparr>vm_stack := st[nat ?slot := v]\<rparr>))"
    by (rule step_code_at [OF c _ _ f1]) (simp_all add: u16_bytes_def)
  then have s2: "step ?vm1 = exec_op LOAD_LOCAL ((set_ip (?ip + 4) vm)\<lparr>vm_stack := st[nat ?slot := v]\<rparr>)"
    by (simp add: algebra_simps)
  have "read_u16 (set_ip (?ip + int 4) (vm\<lparr>vm_stack := st[nat ?slot := v]\<rparr>))
          = Inr (i, set_ip (?ip + int 4 + 2) (vm\<lparr>vm_stack := st[nat ?slot := v]\<rparr>))"
    by (rule read_u16_code_at [OF f1 c _ _ _ i]) (simp_all add: u16_bytes_def)
  then have r2: "read_u16 ((set_ip (?ip + 4) vm)\<lparr>vm_stack := st[nat ?slot := v]\<rparr>)
          = Inr (i, (set_ip (?ip + 6) vm)\<lparr>vm_stack := st[nat ?slot := v]\<rparr>)"
    by (simp add: algebra_simps)
  have ll: "load_local i ((set_ip (?ip + 6) vm)\<lparr>vm_stack := st[nat ?slot := v]\<rparr>)
          = Inr (v, (set_ip (?ip + 6) vm)\<lparr>vm_stack := st[nat ?slot := v]\<rparr>)"
    using slot by (simp add: load_local_def py_get_in)
  have e2: "step ?vm1 = Inr ((set_ip (?ip + 6) vm)\<lparr>vm_stack := st[nat ?slot := v] @ [v]\<rparr>)"
    by (simp add: s2 r2 ll then_do_def push_def)
  show ?thesis
    by (simp add: e1 e2 then_do_def)
qed


lemma store_then_load_global:
  assumes c: "code_at vm ([opcode_value STORE_GLOBAL] @ u16_bytes i @ [opcode_value LOAD_GLOBAL] @ u16_bytes i)"
    and i: "0 \<le> i" "i < 65536"
    and st: "vm_stack vm = st @ [v]"
    and slot: "i < int (length (vm_globals vm))"
  shows "then_do (step vm) step =
           Inr ((set_ip (cf_ip (cur_frame vm) + 6) vm)
                  \<lparr>vm_stack := st @ [v], vm_globals := (vm_globals vm)[nat i := v]\<rparr>)"
proof -
  let ?ip = "cf_ip (cur_frame vm)"
  let ?g = "(vm_globals vm)[nat i := v]"
  let ?vm' = "vm\<lparr>vm_stack := st, vm_globals := ?g\<rparr>"
  have fr: "vm_frames vm \<noteq> []"
    using c by (simp add: code_at_def)
  have "step (set_ip (?ip + int 0) vm) = exec_op STORE_GLOBAL (set_ip (?ip + int 0 + 1) vm)"
    by (rule step_code_at [OF c]) simp_all
  then have s1: "step vm = exec_op STORE_GLOBAL (set_ip (?ip + 1) vm)"
    using fr by (simp add: set_ip_same)
  have "read_u16 (set_ip (?ip + int 1) vm) = Inr (i, set_ip (?ip + int 1 + 2) vm)"
    by (rule read_u16_code_at [OF refl c _ _ _ i]) (simp_all add: u16_bytes_def)
  then have r1: "read_u16 (set_ip (?ip + 1) vm) = Inr (i, set_ip (?ip + 3) vm)"
    by (simp add: algebra_simps)
  let ?vm1 = "(set_ip (?ip + 3) vm)\<lparr>vm_stack := st, vm_globals := ?g\<rparr>"
  have sg: "store_global i (set_ip (?ip + 3) vm) = Inr ?vm1"
    using st slot i(1)
    by (simp add: store_global_def then_do_def pop_top [of _ st v] py_set_in)
  have e1: "step vm = Inr ?vm1"
    by (simp add: s1 r1 sg then_do_def)
  have f1: "cf_function (cur_frame ?vm') = cf_function (cur_frame vm)"
    by simp
  have "step (set_ip (?ip + int 3) ?vm') = exec_op LOAD_GLOBAL (set_ip (?ip + int 3 + 1) ?vm')"
    by (rule step_code_at [OF c _ _ f1]) (simp_all add: u16_bytes_def)
  then have s2: "step ?vm1
      = exec_op LOAD_GLOBAL ((set_ip (?ip + 4) vm)\<lparr>vm_stack := st, vm_globals := ?g\<rparr>)"
    by (simp add: algebra_simps)
  have "read_u16 (set_ip (?ip + int 4) ?vm') = Inr (i, set_ip (?ip + int 4 + 2) ?vm')"
    by (rule read_u16_code_at [OF f1 c _ _ _ i]) (simp_all add: u16_bytes_def)
  then have r2: "read_u16 ((set_ip (?ip + 4) vm)\<lparr>vm_stack := st, vm_globals := ?g\<rparr>)
          = Inr (i, (set_ip (?ip + 6) vm)\<lparr>vm_stack := st, vm_globals := ?g\<rparr>)"
    by (simp add: algebra_simps)
  have e2: "step ?vm1 = Inr ((set_ip (?ip + 6) vm)\<lparr>vm_stack := st @ [v], vm_globals := ?g\<rparr>)"
    using slot i(1) by (simp add: s2 r2 then_do_def push_def py_get_in)
  show ?thesis
    by (simp add: e1 e2 then_do_def)
qed

lemma read_byte_code_at:
  assumes "cf_function (cur_frame vm') = cf_function (cur_frame vm)"
    and "code_at vm bytes" and "k < length bytes"
  shows "read_byte (set_ip (cf_ip (cur_frame vm) + int k) vm')
           = Inr (bytes ! k, set_ip (cf_ip (cur_frame vm) + int k + 1) vm')"
  using code_at_get(1) [OF assms(2,3)] assms(1)
  by (simp add: read_byte_def Let_def)

lemma compile_assign_local:
  assumes "rp_var_bindings r n = Some (LocalBinding bn bm i)" and "compile_expr r v c = Inr c1"
  shows "compile_expr r (AssignExpr n line name v) c =
           Inr (c1\<lparr>code := code c1 @ [opcode_value STORE_LOCAL] @ u16_bytes i
                               @ [opcode_value LOAD_LOCAL] @ u16_bytes i,
                     lines := lines c1 @ replicate 6 line\<rparr>)"
  using assms
  by (simp add: binding_for_node_def emit_load_local_def emit_store_local_def emit_def
        emit_u16_def write_u16_bytes chunk_write_def numeral_eq_Suc)

lemma compile_assign_global:
  assumes "rp_var_bindings r n = Some (GlobalBinding bn bm i)" and "compile_expr r v c = Inr c1"
  shows "compile_expr r (AssignExpr n line name v) c =
           Inr (c1\<lparr>code := code c1 @ [opcode_value STORE_GLOBAL] @ u16_bytes i
                               @ [opcode_value LOAD_GLOBAL] @ u16_bytes i,
                     lines := lines c1 @ replicate 6 line\<rparr>)"
  using assms
  by (simp add: binding_for_node_def emit_load_global_def emit_store_global_def emit_def
        emit_u16_def write_u16_bytes chunk_write_def numeral_eq_Suc)

subsection \<open>Assignment\<close>

text \<open>
  C8. The compiled form of an assignment is the code of its value followed by a store
  to the resolved slot and a load of the same slot (local or global, the index written
  as the same two bytes). On the machine, that store and load, run with the value on top
  of the operand stack, put the value into the slot and leave it on top of the stack.
  A program that prints \<open>x = 5\<close>, then \<open>g = 7\<close>, then \<open>x + g\<close> outputs 5, 7 and 12.
\<close>

theorem assignment_is_an_expression:
  "(rp_var_bindings r n = Some (LocalBinding bn bm i) \<and> compile_expr r v c = Inr c1 \<longrightarrow>
      compile_expr r (AssignExpr n line name v) c =
        Inr (c1\<lparr>code := code c1 @ [opcode_value STORE_LOCAL] @ u16_bytes i
                            @ [opcode_value LOAD_LOCAL] @ u16_bytes i,
                  lines := lines c1 @ replicate 6 line\<rparr>)) \<and>
   (rp_var_bindings r n = Some (GlobalBinding bn bm i) \<and> compile_expr r v c = Inr c1 \<longrightarrow>
      compile_expr r (AssignExpr n line name v) c =
        Inr (c1\<lparr>code := code c1 @ [opcode_value STORE_GLOBAL] @ u16_bytes i
                            @ [opcode_value LOAD_GLOBAL] @ u16_bytes i,
                  lines := lines c1 @ replicate 6 line\<rparr>)) \<and>
   (code_at vm ([opcode_value STORE_LOCAL] @ u16_bytes i @ [opcode_value LOAD_LOCAL] @ u16_bytes i)
      \<and> 0 \<le> i \<and> i < 65536 \<and> vm_stack vm = st @ [x]
      \<and> 0 \<le> cf_stack_base (cur_frame vm) + i
      \<and> cf_stack_base (cur_frame vm) + i < int (length st) \<longrightarrow>
      then_do (step vm) step =
        Inr ((set_ip (cf_ip (cur_frame vm) + 6) vm)
               \<lparr>vm_stack := st[nat (cf_stack_base (cur_frame vm) + i) := x] @ [x]\<rparr>)) \<and>
   (code_at vm ([opcode_value STORE_GLOBAL] @ u16_bytes i @ [opcode_value LOAD_GLOBAL] @ u16_bytes i)
      \<and> 0 \<le> i \<and> i < 65536 \<and> vm_stack vm = st @ [x]
      \<and> i < int (length (vm_globals vm)) \<longrightarrow>
      then_do (step vm) step =
        Inr ((set_ip (cf_ip (cur_frame vm) + 6) vm)
               \<lparr>vm_stack := st @ [x], vm_globals := (vm_globals vm)[nat i := x]\<rparr>)) \<and>
   map_option (vm_output \<circ> final_vm) (run_program 30 (compiled assign_program))
     = Some [''5'', ''7'', ''12'']"
proof -
  have "map_option (vm_output \<circ> final_vm) (run_program 30 (compiled assign_program))
          = Some [''5'', ''7'', ''12'']"
    by code_simp
  then show ?thesis
    using compile_assign_local [of r n bn bm i v c c1 line name]
      compile_assign_global [of r n bn bm i v c c1 line name]
      store_then_load_local [of vm i st x] store_then_load_global [of vm i st x]
    by blast
qed

theorem assignment_is_an_expression_witness:
  "rp_var_bindings (resolved assign_program) 2 = Some (LocalBinding ''x'' True 0) \<and>
   rp_var_bindings (resolved assign_program) 3 = Some (GlobalBinding ''g'' True 0) \<and>
   compile_expr (resolved assign_program) (AssignExpr 2 4 ''x'' (IntLiteral 4 5)) empty_chunk
     = Inr \<lparr>code = [0, 0, 0, 2, 0, 0, 1, 0, 0], lines = [4, 4, 4, 4, 4, 4, 4, 4, 4],
            constants = [5]\<rparr> \<and>
   compile_expr (resolved assign_program) (AssignExpr 3 5 ''g'' (IntLiteral 5 7)) empty_chunk
     = Inr \<lparr>code = [0, 0, 0, 4, 0, 0, 3, 0, 0], lines = [5, 5, 5, 5, 5, 5, 5, 5, 5],
            constants = [7]\<rparr> \<and>
   code_at (example_vm [2, 0, 0, 1, 0, 0] [9, 5]) [2, 0, 0, 1, 0, 0] \<and>
   vm_stack (the_result (then_do (step (example_vm [2, 0, 0, 1, 0, 0] [9, 5])) step)) = [5, 5] \<and>
   code_at (example_vm_globals [4, 0, 0, 3, 0, 0] [5] [9]) [4, 0, 0, 3, 0, 0] \<and>
   vm_stack (the_result (then_do (step (example_vm_globals [4, 0, 0, 3, 0, 0] [5] [9])) step)) = [5] \<and>
   vm_globals (the_result (then_do (step (example_vm_globals [4, 0, 0, 3, 0, 0] [5] [9])) step)) = [5]"
proof -
  have b1: "rp_var_bindings (resolved assign_program) 2 = Some (LocalBinding ''x'' True 0)"
    by code_simp
  have b2: "rp_var_bindings (resolved assign_program) 3 = Some (GlobalBinding ''g'' True 0)"
    by code_simp
  have v1: "compile_expr (resolved assign_program) (IntLiteral 4 5) empty_chunk
              = Inr \<lparr>code = [0, 0, 0], lines = [4, 4, 4], constants = [5]\<rparr>"
    by (simp add: add_constant_def empty_chunk_def emit_def emit_u16_def write_u16_def
          chunk_write_def)
  have v2: "compile_expr (resolved assign_program) (IntLiteral 5 7) empty_chunk
              = Inr \<lparr>code = [0, 0, 0], lines = [5, 5, 5], constants = [7]\<rparr>"
    by (simp add: add_constant_def empty_chunk_def emit_def emit_u16_def write_u16_def
          chunk_write_def)
  have u: "u16_bytes 0 = [0, 0]"
    by (simp add: u16_bytes_def)
  have c1: "code_at (example_vm [2, 0, 0, 1, 0, 0] [9, 5]) [2, 0, 0, 1, 0, 0]"
    by (simp add: code_at_def example_vm_def example_function_def cur_frame_def)
  have c2: "code_at (example_vm_globals [4, 0, 0, 3, 0, 0] [5] [9]) [4, 0, 0, 3, 0, 0]"
    by (simp add: code_at_def example_vm_globals_def example_vm_def example_function_def
          cur_frame_def)
  have s1: "vm_stack (example_vm [2, 0, 0, 1, 0, 0] [9, 5]) = [9] @ [5]"
    and base1: "cf_stack_base (cur_frame (example_vm [2, 0, 0, 1, 0, 0] [9, 5])) = 0"
    by (simp_all add: example_vm_def cur_frame_def)
  have s2: "vm_stack (example_vm_globals [4, 0, 0, 3, 0, 0] [5] [9]) = [] @ [5]"
    and g2: "vm_globals (example_vm_globals [4, 0, 0, 3, 0, 0] [5] [9]) = [9]"
    by (simp_all add: example_vm_globals_def example_vm_def)
  note t = assignment_is_an_expression
  from t [of "resolved assign_program" 2 "''x''" True 0 "IntLiteral 4 5" empty_chunk
           "\<lparr>code = [0, 0, 0], lines = [4, 4, 4], constants = [5]\<rparr>" 4 "''x''"] b1 v1 u
  have a1: "compile_expr (resolved assign_program) (AssignExpr 2 4 ''x'' (IntLiteral 4 5))
      empty_chunk = Inr \<lparr>code = [0, 0, 0, 2, 0, 0, 1, 0, 0],
        lines = [4, 4, 4, 4, 4, 4, 4, 4, 4], constants = [5]\<rparr>"
    by (simp add: numeral_eq_Suc)
  from t [of "resolved assign_program" 3 "''g''" True 0 "IntLiteral 5 7" empty_chunk
           "\<lparr>code = [0, 0, 0], lines = [5, 5, 5], constants = [7]\<rparr>" 5 "''g''"] b2 v2 u
  have a2: "compile_expr (resolved assign_program) (AssignExpr 3 5 ''g'' (IntLiteral 5 7))
      empty_chunk = Inr \<lparr>code = [0, 0, 0, 4, 0, 0, 3, 0, 0],
        lines = [5, 5, 5, 5, 5, 5, 5, 5, 5], constants = [7]\<rparr>"
    by (simp add: numeral_eq_Suc)
  from t [of _ _ _ _ 0 _ _ _ _ _ "example_vm [2, 0, 0, 1, 0, 0] [9, 5]" "[9]" 5] c1 s1 base1 u
  have a3: "vm_stack (the_result (then_do (step (example_vm [2, 0, 0, 1, 0, 0] [9, 5])) step))
              = [5, 5]"
    by (simp add: the_result_def)
  from t [of _ _ _ _ 0 _ _ _ _ _ "example_vm_globals [4, 0, 0, 3, 0, 0] [5] [9]" "[]" 5] c2 s2 g2 u
  have a4: "vm_stack (the_result (then_do (step (example_vm_globals [4, 0, 0, 3, 0, 0] [5] [9])) step)) = [5]"
    "vm_globals (the_result (then_do (step (example_vm_globals [4, 0, 0, 3, 0, 0] [5] [9])) step)) = [5]"
    by (simp_all add: the_result_def)
  show ?thesis
    using b1 b2 a1 a2 c1 a3 c2 a4 by simp
qed

subsection \<open>The entry function\<close>

lemma compile_entry_function_shape:
  assumes "compile_entry_function r = Inr f"
  shows "\<exists>c1 m. compile_global_inits r (rp_globals r) empty_chunk = Inr c1 \<and>
           find (\<lambda>fn. fs_name fn = ''main'') (rp_functions r) = Some m \<and>
           code (bf_chunk f) = code c1 @ [opcode_value CALL] @ u16_bytes (fs_index m)
              @ [int (length (fd_params (fs_decl m))), opcode_value POP, opcode_value HALT] \<and>
           bf_arity f = 0 \<and> bf_num_locals f = 0"
  using assms
  by (auto simp: compile_entry_function_def Let_def emit_call_def emit_def emit_u16_def
        write_u16_bytes chunk_write_def split: sum.splits option.splits)


lemma compile_function_arity:
  "compile_function r m = Inr cf \<Longrightarrow> bf_arity cf = fs_arity m \<and> bf_name cf = fs_name m"
  by (auto simp: compile_function_def split: sum.splits)

lemma resolved_arity:
  assumes "resolve prog = Inr r" and "m \<in> set (rp_functions r)"
  shows "fs_arity m = int (length (fd_params (fs_decl m)))"
proof -
  from assms obtain i d where "m = resolved_symbol i d"
    by (auto simp: resolve_effect(2) dest: in_symbols_from)
  then show ?thesis
    by (simp add: resolved_symbol_def declared_symbol_def)
qed

lemma resolved_index:
  assumes "resolve prog = Inr r" and "j < length (rp_functions r)"
  shows "fs_index (rp_functions r ! j) = int j"
  using assms
  by (simp add: resolve_effect(2) symbols_from_nth resolved_symbol_def declared_symbol_def)

lemma compile_functions_fill:
  assumes "compile_functions r (drop k symbols) fns0 = Inr fns"
    and "length fns0 = length symbols"
    and "\<forall>j < length symbols. fs_index (symbols ! j) = int j"
    and "\<forall>j < k. \<exists>cf. fns0 ! j = Some cf \<and> compile_function r (symbols ! j) = Inr cf"
  shows "length fns = length symbols \<and>
         (\<forall>j < length symbols. \<exists>cf. fns ! j = Some cf \<and> compile_function r (symbols ! j) = Inr cf)"
  using assms
proof (induction "length symbols - k" arbitrary: k fns0)
  case 0
  then have "drop k symbols = []"
    by simp
  with 0 show ?case
    by auto
next
  case (Suc d)
  then have k: "k < length symbols"
    by simp
  then have dr: "drop k symbols = symbols ! k # drop (Suc k) symbols"
    by (simp add: Cons_nth_drop_Suc)
  from Suc.prems(1) obtain cf fns1 where
    s: "compile_function r (symbols ! k) = Inr cf"
       "py_set fns0 (fs_index (symbols ! k)) (Some cf) = Some fns1"
       "compile_functions r (drop (Suc k) symbols) fns1 = Inr fns"
    unfolding dr by (auto split: sum.splits option.splits)
  have idx: "fs_index (symbols ! k) = int k"
    using Suc.prems(3) k by simp
  have fns1: "fns1 = fns0[k := Some cf]"
    using s(2) k Suc.prems(2) by (simp add: idx py_set_def)
  have d: "d = length symbols - Suc k"
    using Suc.hyps(2) by simp
  have l1: "length fns1 = length symbols"
    by (simp add: fns1 Suc.prems(2))
  have p1: "\<forall>j < Suc k. \<exists>cf. fns1 ! j = Some cf \<and> compile_function r (symbols ! j) = Inr cf"
  proof (intro allI impI)
    fix j
    assume "j < Suc k"
    then consider "j = k" | "j < k"
      by linarith
    then show "\<exists>cf. fns1 ! j = Some cf \<and> compile_function r (symbols ! j) = Inr cf"
    proof cases
      case 1
      then show ?thesis
        using s(1) k Suc.prems(2) by (simp add: fns1)
    next
      case 2
      then show ?thesis
        using Suc.prems(4) by (simp add: fns1)
    qed
  qed
  from Suc.hyps(1) [OF d s(3) l1 Suc.prems(3) p1] show ?case .
qed

lemma map_filter_all_Some:
  "\<forall>j < length xs. \<exists>y. xs ! j = Some y \<Longrightarrow>
     length (List.map_filter (\<lambda>x. x) xs) = length xs \<and>
     (\<forall>j < length xs. xs ! j = Some (List.map_filter (\<lambda>x. x) xs ! j))"
proof (induction xs)
  case Nil
  then show ?case by (simp add: List.map_filter_simps)
next
  case (Cons x xs)
  from Cons.prems [rule_format, of 0] obtain y where y: "x = Some y"
    by auto
  have "\<forall>j < length xs. \<exists>y. xs ! j = Some y"
    using Cons.prems by (metis Suc_less_eq length_Cons nth_Cons_Suc)
  from Cons.IH [OF this] show ?case
    by (auto simp: y List.map_filter_simps nth_Cons')
qed


lemma compile_structure:
  assumes res: "resolve prog = Inr r" and cmp: "compile r = Inr p"
  shows "\<exists>entry. compile_entry_function r = Inr entry \<and>
           bp_functions p ! length (rp_functions r) = entry \<and>
           length (bp_functions p) = Suc (length (rp_functions r)) \<and>
           bp_entry_index p = int (length (rp_functions r)) \<and>
           (\<forall>j < length (rp_functions r).
              compile_function r (rp_functions r ! j) = Inr (bp_functions p ! j))"
proof -
  let ?n = "length (rp_functions r)"
  from cmp obtain fns entry where
    s: "compile_functions r (rp_functions r) (replicate ?n None) = Inr fns"
       "compile_entry_function r = Inr entry"
       "p = \<lparr>bp_functions = List.map_filter (\<lambda>fn. fn) fns @ [entry],
              bp_globals = map (\<lambda>g. 0) (rp_globals r),
              bp_entry_index = int (length (List.map_filter (\<lambda>fn. fn) fns))\<rparr>"
    by (auto simp: compile_def Let_def split: sum.splits)
  have "compile_functions r (drop 0 (rp_functions r)) (replicate ?n None) = Inr fns"
    using s(1) by simp
  from compile_functions_fill [OF this] resolved_index [OF res]
  have fl: "length fns = ?n"
    and fc: "\<forall>j < ?n. \<exists>cf. fns ! j = Some cf \<and> compile_function r (rp_functions r ! j) = Inr cf"
    by simp_all
  from fc fl have "\<forall>j < length fns. \<exists>y. fns ! j = Some y"
    by auto
  from map_filter_all_Some [OF this] fl
  have ml: "length (List.map_filter (\<lambda>fn. fn) fns) = ?n"
    and mn: "\<forall>j < ?n. fns ! j = Some (List.map_filter (\<lambda>fn. fn) fns ! j)"
    by simp_all
  have "\<forall>j < ?n. compile_function r (rp_functions r ! j) = Inr (bp_functions p ! j)"
    using fc mn ml by (auto simp: s(3) nth_append)
  then show ?thesis
    using s(2) ml by (auto simp: s(3) nth_append)
qed

lemma run_loop_steps:
  "run_loop (n + fuel) vm = (case steps n vm of Inl e \<Rightarrow> Some (Inl e) | Inr vm' \<Rightarrow> run_loop fuel vm')"
proof (induction n arbitrary: vm)
  case 0
  then show ?case by simp
next
  case (Suc n)
  show ?case
  proof (cases "vm_frames vm = []")
    case True
    then show ?thesis
      by (simp add: run_loop.simps [of _ vm])
  next
    case False
    then show ?thesis
      using Suc.IH
      by (simp add: run_loop.simps [of "Suc (n + fuel)" vm] then_do_def split: sum.splits)
  qed
qed

lemma steps_add: "steps (m + n) vm = then_do (steps m vm) (steps n)"
proof (induction m arbitrary: vm)
  case 0
  then show ?case by (simp add: then_do_def)
next
  case (Suc m)
  show ?case
  proof (cases "vm_frames vm = []")
    case True
    have "steps n vm = Inr vm"
      using True by (cases n) simp_all
    then show ?thesis
      using True by (simp add: then_do_def)
  next
    case False
    then show ?thesis
      using Suc.IH by (simp add: then_do_def split: sum.splits)
  qed
qed

lemma length_literal_inits_code [simp]: "length (literal_inits_code k n) = 6 * n"
  by (induction k n rule: literal_inits_code.induct) (simp_all add: u16_bytes_def)

lemma drop_length_plus: "drop (length xs + m) (xs @ ys) = drop m ys"
  by simp

lemma drop_literal_inits_code:
  "k \<le> n \<Longrightarrow> drop (6 * k) (literal_inits_code b n) = literal_inits_code (b + int k) (n - k)"
proof (induction k arbitrary: b n)
  case 0
  then show ?case by simp
next
  case (Suc k)
  then obtain n' where n: "n = Suc n'" "k \<le> n'"
    by (cases n) simp_all
  let ?blk = "[opcode_value PUSH_CONST] @ u16_bytes b @ [opcode_value STORE_GLOBAL] @ u16_bytes b"
  have l: "length ?blk = 6"
    by (simp add: u16_bytes_def)
  have "drop (6 * Suc k) (literal_inits_code b n)
          = drop (length ?blk + 6 * k) (?blk @ literal_inits_code (b + 1) n')"
    unfolding l by (simp add: n)
  also have "\<dots> = drop (6 * k) (literal_inits_code (b + 1) n')"
    by (rule drop_length_plus)
  finally have "drop (6 * Suc k) (literal_inits_code b n)
                  = drop (6 * k) (literal_inits_code (b + 1) n')" .
  then show ?case
    using Suc.IH [OF n(2), of "b + 1"] by (simp add: n algebra_simps)
qed

lemma literal_values_length: "literal_values gs = Some vs \<Longrightarrow> length vs = length gs"
  by (induction gs arbitrary: vs) (auto split: Expr.splits)

lemma compile_literal_inits:
  assumes "literal_values gs = Some vs"
    and "\<forall>k < length gs. binding_index (gv_binding (gs ! k)) = b + int k"
    and "int (length (constants c)) = b"
  shows "\<exists>c'. compile_global_inits r gs c = Inr c' \<and>
           code c' = code c @ literal_inits_code b (length gs) \<and>
           constants c' = constants c @ vs"
  using assms
proof (induction gs arbitrary: vs b c)
  case Nil
  then show ?case by simp
next
  case (Cons g gs)
  from Cons.prems(1) obtain line v vs' where
    g: "vd_initializer (gv_decl g) = IntLiteral line v" "literal_values gs = Some vs'"
       "vs = v # vs'"
    by (auto split: Expr.splits)
  have b0: "binding_index (gv_binding g) = b"
    using Cons.prems(2) [rule_format, of 0] by simp
  have bs: "\<forall>k < length gs. binding_index (gv_binding (gs ! k)) = (b + 1) + int k"
    using Cons.prems(2) by (auto simp: algebra_simps)
  let ?c1 = "c\<lparr>constants := constants c @ [v],
               code := code c @ [opcode_value PUSH_CONST] @ u16_bytes b
                  @ [opcode_value STORE_GLOBAL] @ u16_bytes b,
               lines := lines c @ replicate 3 line @ replicate 3 (vd_line (gv_decl g))\<rparr>"
  have e: "compile_global_inits r (g # gs) c = compile_global_inits r gs ?c1"
    using Cons.prems(3)
    by (simp add: g(1) b0 add_constant_def Let_def emit_def emit_u16_def emit_store_global_def
          write_u16_bytes chunk_write_def numeral_eq_Suc)
  have "int (length (constants ?c1)) = b + 1"
    using Cons.prems(3) by simp
  from Cons.IH [OF g(2) bs this, of ] obtain c' where
    "compile_global_inits r gs ?c1 = Inr c'"
    "code c' = code ?c1 @ literal_inits_code (b + 1) (length gs)"
    "constants c' = constants ?c1 @ vs'"
    by blast
  then show ?case
    unfolding e by (simp add: g(3))
qed

lemma push_const_store_global:
  assumes c: "code_at vm ([opcode_value PUSH_CONST] @ u16_bytes i @ [opcode_value STORE_GLOBAL] @ u16_bytes j)"
    and i: "0 \<le> i" "i < 65536"
    and ic: "i < int (length (constants (bf_chunk (cf_function (cur_frame vm)))))"
    and j: "0 \<le> j" "j < 65536"
    and jg: "j < int (length (vm_globals vm))"
  shows "steps 2 vm =
           Inr ((set_ip (cf_ip (cur_frame vm) + 6) vm)
                  \<lparr>vm_globals := (vm_globals vm)
                     [nat j := constants (bf_chunk (cf_function (cur_frame vm))) ! nat i]\<rparr>)"
proof -
  let ?ip = "cf_ip (cur_frame vm)"
  let ?v = "constants (bf_chunk (cf_function (cur_frame vm))) ! nat i"
  let ?g = "(vm_globals vm)[nat j := ?v]"
  let ?vm' = "vm\<lparr>vm_stack := vm_stack vm @ [?v]\<rparr>"
  have fr: "vm_frames vm \<noteq> []"
    using c by (simp add: code_at_def)
  have "step (set_ip (?ip + int 0) vm) = exec_op PUSH_CONST (set_ip (?ip + int 0 + 1) vm)"
    by (rule step_code_at [OF c]) simp_all
  then have s1: "step vm = exec_op PUSH_CONST (set_ip (?ip + 1) vm)"
    using fr by (simp add: set_ip_same)
  have "read_u16 (set_ip (?ip + int 1) vm) = Inr (i, set_ip (?ip + int 1 + 2) vm)"
    by (rule read_u16_code_at [OF refl c _ _ _ i]) (simp_all add: u16_bytes_def)
  then have r1: "read_u16 (set_ip (?ip + 1) vm) = Inr (i, set_ip (?ip + 3) vm)"
    by (simp add: algebra_simps)
  have e1: "step vm = Inr (set_ip (?ip + 3) ?vm')"
    using i(1) ic by (simp add: s1 r1 then_do_def push_def py_get_in)
  have f1: "cf_function (cur_frame ?vm') = cf_function (cur_frame vm)"
    by simp
  have "step (set_ip (?ip + int 3) ?vm') = exec_op STORE_GLOBAL (set_ip (?ip + int 3 + 1) ?vm')"
    by (rule step_code_at [OF c _ _ f1]) (simp_all add: u16_bytes_def)
  then have s2: "step (set_ip (?ip + 3) ?vm') = exec_op STORE_GLOBAL (set_ip (?ip + 4) ?vm')"
    by (simp add: algebra_simps)
  have "read_u16 (set_ip (?ip + int 4) ?vm') = Inr (j, set_ip (?ip + int 4 + 2) ?vm')"
    by (rule read_u16_code_at [OF f1 c _ _ _ j]) (simp_all add: u16_bytes_def)
  then have r2: "read_u16 (set_ip (?ip + 4) ?vm') = Inr (j, set_ip (?ip + 6) ?vm')"
    by (simp add: algebra_simps)
  have st: "vm_stack (set_ip (?ip + 6) vm) = vm_stack vm"
    by (simp add: set_ip_def)
  have same: "(set_ip (?ip + 6) vm)\<lparr>vm_stack := vm_stack vm\<rparr> = set_ip (?ip + 6) vm"
    by (simp add: set_ip_def)
  have sg: "store_global j (set_ip (?ip + 6) ?vm')
              = Inr ((set_ip (?ip + 6) vm)\<lparr>vm_globals := ?g\<rparr>)"
    using j(1) jg
    by (simp add: store_global_def then_do_def pop_def py_set_in same)
  have e2: "step ((set_ip (?ip + 3) vm)\<lparr>vm_stack := vm_stack vm @ [?v]\<rparr>)
              = Inr ((set_ip (?ip + 6) vm)\<lparr>vm_globals := ?g\<rparr>)"
    using s2 r2 sg by (simp add: then_do_def)
  have e1': "step vm = Inr ((set_ip (?ip + 3) vm)\<lparr>vm_stack := vm_stack vm @ [?v]\<rparr>)"
    using e1 by simp
  show ?thesis
    using fr by (simp add: numeral_2_eq_2 e1' e2 then_do_def)
qed

lemma call_step:
  assumes c: "code_at vm ([opcode_value CALL] @ u16_bytes k @ [argc])"
    and k: "0 \<le> k" "k < 65536"
    and range: "k < int (length (bp_functions (vm_program vm)))"
    and arity: "bf_arity (bp_functions (vm_program vm) ! nat k) = argc"
  shows "step vm =
           (if int (length (vm_stack vm)) < argc then
              Inl (VMRuntimeError ''call stack underflow'', set_ip (cf_ip (cur_frame vm) + 4) vm)
            else
              Inr ((set_ip (cf_ip (cur_frame vm) + 4) vm)
                \<lparr>vm_stack := vm_stack vm
                    @ replicate (nat (bf_num_locals (bp_functions (vm_program vm) ! nat k) - argc)) 0,
                 vm_frames := vm_frames (set_ip (cf_ip (cur_frame vm) + 4) vm)
                    @ [\<lparr>cf_function = bp_functions (vm_program vm) ! nat k, cf_ip = 0,
                         cf_stack_base = int (length (vm_stack vm)) - argc\<rparr>]\<rparr>))"
proof -
  let ?ip = "cf_ip (cur_frame vm)"
  have fr: "vm_frames vm \<noteq> []"
    using c by (simp add: code_at_def)
  have "step (set_ip (?ip + int 0) vm) = exec_op CALL (set_ip (?ip + int 0 + 1) vm)"
    by (rule step_code_at [OF c]) simp_all
  then have s1: "step vm = exec_op CALL (set_ip (?ip + 1) vm)"
    using fr by (simp add: set_ip_same)
  have "read_u16 (set_ip (?ip + int 1) vm) = Inr (k, set_ip (?ip + int 1 + 2) vm)"
    by (rule read_u16_code_at [OF refl c _ _ _ k]) (simp_all add: u16_bytes_def)
  then have r1: "read_u16 (set_ip (?ip + 1) vm) = Inr (k, set_ip (?ip + 3) vm)"
    by (simp add: algebra_simps)
  have "read_byte (set_ip (?ip + int 3) vm)
          = Inr (([opcode_value CALL] @ u16_bytes k @ [argc]) ! 3, set_ip (?ip + int 3 + 1) vm)"
    by (rule read_byte_code_at [OF refl c]) (simp add: u16_bytes_def)
  then have r2: "read_byte (set_ip (?ip + 3) vm) = Inr (argc, set_ip (?ip + 4) vm)"
    by (simp add: algebra_simps u16_bytes_def)
  have p: "vm_program (set_ip (?ip + 4) vm) = vm_program vm"
    and s: "vm_stack (set_ip (?ip + 4) vm) = vm_stack vm"
    by (simp_all add: set_ip_def)
  show ?thesis
    using k(1) range arity
    by (simp add: s1 r1 r2 then_do_def call_function_def Let_def p s)
qed

lemma pop_then_halt:
  assumes c: "code_at vm [opcode_value POP, opcode_value HALT]"
    and st: "vm_stack vm = st @ [v]"
  shows "steps 2 vm = Inr (vm\<lparr>vm_stack := st, vm_frames := []\<rparr>)"
proof -
  let ?ip = "cf_ip (cur_frame vm)"
  let ?vm' = "vm\<lparr>vm_stack := st\<rparr>"
  have fr: "vm_frames vm \<noteq> []"
    using c by (simp add: code_at_def)
  have "step (set_ip (?ip + int 0) vm) = exec_op POP (set_ip (?ip + int 0 + 1) vm)"
    by (rule step_code_at [OF c]) simp_all
  then have s1: "step vm = exec_op POP (set_ip (?ip + 1) vm)"
    using fr by (simp add: set_ip_same)
  have st1: "vm_stack (set_ip (?ip + 1) vm) = st @ [v]"
    using st by (simp add: set_ip_def)
  have e1: "step vm = Inr ((set_ip (?ip + 1) vm)\<lparr>vm_stack := st\<rparr>)"
    by (simp add: s1 then_do_def pop_top [OF st1])
  have f1: "cf_function (cur_frame ?vm') = cf_function (cur_frame vm)"
    by simp
  have "step (set_ip (?ip + int 1) ?vm') = exec_op HALT (set_ip (?ip + int 1 + 1) ?vm')"
    by (rule step_code_at [OF c _ _ f1]) simp_all
  then have "step ((set_ip (?ip + 1) vm)\<lparr>vm_stack := st\<rparr>)
               = Inr ((set_ip (?ip + 2) vm)\<lparr>vm_stack := st, vm_frames := []\<rparr>)"
    by (simp add: algebra_simps)
  moreover have "(set_ip (?ip + 2) vm)\<lparr>vm_stack := st, vm_frames := []\<rparr>
                   = vm\<lparr>vm_stack := st, vm_frames := []\<rparr>"
    by (simp add: set_ip_def)
  ultimately have e2: "step ((set_ip (?ip + 1) vm)\<lparr>vm_stack := st\<rparr>)
                         = Inr (vm\<lparr>vm_stack := st, vm_frames := []\<rparr>)"
    by simp
  show ?thesis
    using fr by (simp add: numeral_2_eq_2 e1 e2 then_do_def)
qed

lemma compile_entry_function_chunk:
  assumes "compile_entry_function r = Inr f"
  shows "\<exists>c1 m. compile_global_inits r (rp_globals r) empty_chunk = Inr c1 \<and>
           find (\<lambda>fn. fs_name fn = ''main'') (rp_functions r) = Some m \<and>
           code (bf_chunk f) = code c1 @ [opcode_value CALL] @ u16_bytes (fs_index m)
              @ [int (length (fd_params (fs_decl m))), opcode_value POP, opcode_value HALT] \<and>
           constants (bf_chunk f) = constants c1"
  using assms
  by (auto simp: compile_entry_function_def Let_def emit_call_def emit_def emit_u16_def
        write_u16_bytes chunk_write_def split: sum.splits option.splits)

lemma compile_globals: "compile r = Inr p \<Longrightarrow> bp_globals p = map (\<lambda>g. 0) (rp_globals r)"
  by (auto simp: compile_def Let_def split: sum.splits)

lemma store_next_literal:
  assumes "k < length vs"
  shows "(take k vs @ replicate (length vs - k) 0)[k := vs ! k]
           = take (Suc k) vs @ replicate (length vs - Suc k) (0 :: int)"
proof -
  have "length vs - k = Suc (length vs - Suc k)"
    using assms by simp
  then have "replicate (length vs - k) (0 :: int) = 0 # replicate (length vs - Suc k) 0"
    by simp
  then show ?thesis
    using assms by (simp add: list_update_append take_Suc_conv_app_nth)
qed

lemma literal_inits_run:
  assumes cd: "code (bf_chunk f) = literal_inits_code 0 (length vs) @ rest"
    and cs: "constants (bf_chunk f) = vs"
    and few: "length vs \<le> 65536"
    and k: "k \<le> length vs"
  shows "steps (2 * k)
           \<lparr>vm_program = p, vm_stack = [],
            vm_frames = [\<lparr>cf_function = f, cf_ip = 0, cf_stack_base = 0\<rparr>],
            vm_globals = replicate (length vs) 0, vm_output = []\<rparr>
         = Inr \<lparr>vm_program = p, vm_stack = [],
                vm_frames = [\<lparr>cf_function = f, cf_ip = 6 * int k, cf_stack_base = 0\<rparr>],
                vm_globals = take k vs @ replicate (length vs - k) 0, vm_output = []\<rparr>"
  using k
proof (induction k)
  case 0
  then show ?case by simp
next
  case (Suc k)
  let ?n = "length vs"
  let ?vm = "\<lparr>vm_program = p, vm_stack = [],
               vm_frames = [\<lparr>cf_function = f, cf_ip = 6 * int k, cf_stack_base = 0\<rparr>],
               vm_globals = take k vs @ replicate (?n - k) 0, vm_output = []\<rparr>"
  let ?blk = "[opcode_value PUSH_CONST] @ u16_bytes (int k) @ [opcode_value STORE_GLOBAL]
                @ u16_bytes (int k)"
  from Suc.prems have kn: "k < ?n" "k \<le> ?n"
    by simp_all
  have sk: "?n - k = Suc (?n - Suc k)"
    using kn(1) by simp
  have e: "2 * Suc k = 2 * k + 2"
    by simp
  have "drop (6 * k) (literal_inits_code 0 ?n @ rest) = literal_inits_code (int k) (?n - k) @ rest"
    using drop_literal_inits_code [OF kn(2), of 0] kn(2) by simp
  also have "literal_inits_code (int k) (?n - k)
               = ?blk @ literal_inits_code (int k + 1) (?n - Suc k)"
    unfolding sk by simp
  finally have d: "drop (6 * k) (code (bf_chunk f))
                     = ?blk @ (literal_inits_code (int k + 1) (?n - Suc k) @ rest)"
    by (simp add: cd)
  have c: "code_at ?vm ?blk"
    by (simp add: code_at_def cur_frame_def nat_mult_distrib d u16_bytes_def)
  have "steps 2 ?vm =
          Inr ((set_ip (cf_ip (cur_frame ?vm) + 6) ?vm)
                 \<lparr>vm_globals := (vm_globals ?vm)
                    [nat (int k) := constants (bf_chunk (cf_function (cur_frame ?vm))) ! nat (int k)]\<rparr>)"
  proof (rule push_const_store_global [OF c])
    show "0 \<le> int k" by simp
    show "int k < 65536" using kn(1) few by simp
    show "int k < int (length (constants (bf_chunk (cf_function (cur_frame ?vm)))))"
      using kn(1) by (simp add: cur_frame_def cs)
    show "0 \<le> int k" by simp
    show "int k < 65536" using kn(1) few by simp
    show "int k < int (length (vm_globals ?vm))"
      using kn(1) by simp
  qed
  then have two: "steps 2 ?vm =
      Inr \<lparr>vm_program = p, vm_stack = [],
           vm_frames = [\<lparr>cf_function = f, cf_ip = 6 * int (Suc k), cf_stack_base = 0\<rparr>],
           vm_globals = take (Suc k) vs @ replicate (?n - Suc k) 0, vm_output = []\<rparr>"
    using store_next_literal [OF kn(1)]
    by (simp add: set_ip_def cur_frame_def cs)
  have "steps (2 * Suc k) \<lparr>vm_program = p, vm_stack = [],
            vm_frames = [\<lparr>cf_function = f, cf_ip = 0, cf_stack_base = 0\<rparr>],
            vm_globals = replicate ?n 0, vm_output = []\<rparr>
          = then_do (Inr ?vm) (steps 2)"
    unfolding e by (simp only: steps_add Suc.IH [OF kn(2)])
  then show ?case
    by (simp only: two then_do_def sum.case)
qed

lemma entry_call_step:
  assumes res: "resolve prog = Inr r" and cmp: "compile r = Inr p"
    and main: "find (\<lambda>fn. fs_name fn = ''main'') (rp_functions r) = Some m"
    and idx: "fs_index m < 65536"
    and prog: "vm_program vm = p"
    and c: "code_at vm ([opcode_value CALL] @ u16_bytes (fs_index m)
              @ [int (length (fd_params (fs_decl m)))])"
  shows "step vm =
           (if int (length (vm_stack vm)) < int (length (fd_params (fs_decl m))) then
              Inl (VMRuntimeError ''call stack underflow'', set_ip (cf_ip (cur_frame vm) + 4) vm)
            else
              Inr ((set_ip (cf_ip (cur_frame vm) + 4) vm)
                \<lparr>vm_stack := vm_stack vm
                    @ replicate (nat (bf_num_locals (bp_functions p ! nat (fs_index m))
                                       - int (length (fd_params (fs_decl m))))) 0,
                 vm_frames := vm_frames (set_ip (cf_ip (cur_frame vm) + 4) vm)
                    @ [\<lparr>cf_function = bp_functions p ! nat (fs_index m), cf_ip = 0,
                         cf_stack_base = int (length (vm_stack vm))
                                           - int (length (fd_params (fs_decl m)))\<rparr>]\<rparr>))"
    and "compile_function r m = Inr (bp_functions p ! nat (fs_index m))"
proof -
  let ?n = "length (rp_functions r)"
  let ?argc = "int (length (fd_params (fs_decl m)))"
  from compile_structure [OF res cmp] obtain entry where
    e: "length (bp_functions p) = Suc ?n"
       "\<forall>j < ?n. compile_function r (rp_functions r ! j) = Inr (bp_functions p ! j)"
    by blast
  from main obtain j where j: "j < ?n" "rp_functions r ! j = m"
    by (auto simp: find_Some_iff)
  have ix: "fs_index m = int j"
    using resolved_index [OF res j(1)] j(2) by simp
  have m_in: "m \<in> set (rp_functions r)"
    using j by (metis nth_mem)
  show cf: "compile_function r m = Inr (bp_functions p ! nat (fs_index m))"
    using e(2) [rule_format, OF j(1)] by (simp add: j(2) ix)
  have callee: "bf_arity (bp_functions (vm_program vm) ! nat (fs_index m)) = ?argc"
    using compile_function_arity [OF cf] resolved_arity [OF res m_in] by (simp add: prog)
  have "step vm =
           (if int (length (vm_stack vm)) < ?argc then
              Inl (VMRuntimeError ''call stack underflow'', set_ip (cf_ip (cur_frame vm) + 4) vm)
            else
              Inr ((set_ip (cf_ip (cur_frame vm) + 4) vm)
                \<lparr>vm_stack := vm_stack vm
                    @ replicate (nat (bf_num_locals (bp_functions (vm_program vm) ! nat (fs_index m))
                                       - ?argc)) 0,
                 vm_frames := vm_frames (set_ip (cf_ip (cur_frame vm) + 4) vm)
                    @ [\<lparr>cf_function = bp_functions (vm_program vm) ! nat (fs_index m), cf_ip = 0,
                         cf_stack_base = int (length (vm_stack vm)) - ?argc\<rparr>]\<rparr>))"
  proof (rule call_step [OF c _ idx _ callee])
    show "0 \<le> fs_index m" by (simp add: ix)
    show "fs_index m < int (length (bp_functions (vm_program vm)))"
      using j(1) e(1) by (simp add: prog ix)
  qed
  then show "step vm =
           (if int (length (vm_stack vm)) < ?argc then
              Inl (VMRuntimeError ''call stack underflow'', set_ip (cf_ip (cur_frame vm) + 4) vm)
            else
              Inr ((set_ip (cf_ip (cur_frame vm) + 4) vm)
                \<lparr>vm_stack := vm_stack vm
                    @ replicate (nat (bf_num_locals (bp_functions p ! nat (fs_index m)) - ?argc)) 0,
                 vm_frames := vm_frames (set_ip (cf_ip (cur_frame vm) + 4) vm)
                    @ [\<lparr>cf_function = bp_functions p ! nat (fs_index m), cf_ip = 0,
                         cf_stack_base = int (length (vm_stack vm)) - ?argc\<rparr>]\<rparr>))"
    by (simp only: prog)
qed

lemma literal_globals_initialized:
  assumes res: "resolve prog = Inr r" and cmp: "compile r = Inr p"
    and main: "find (\<lambda>fn. fs_name fn = ''main'') (rp_functions r) = Some m"
    and lit: "literal_values (rp_globals r) = Some vs"
    and few: "length (rp_globals r) \<le> 65536"
  shows "run_prefix (2 * length vs) p = Inr (entry_vm p (6 * int (length vs)) vs)"
    and "code_at (entry_vm p (6 * int (length vs)) vs)
           ([opcode_value CALL] @ u16_bytes (fs_index m) @ [int (length (fd_params (fs_decl m)))])"
proof -
  let ?n = "length (rp_functions r)"
  let ?argc = "int (length (fd_params (fs_decl m)))"
  let ?rest = "[opcode_value CALL] @ u16_bytes (fs_index m)
                 @ [?argc, opcode_value POP, opcode_value HALT]"
  from compile_structure [OF res cmp] obtain entry where
    e: "compile_entry_function r = Inr entry" "bp_functions p ! ?n = entry"
       "length (bp_functions p) = Suc ?n" "bp_entry_index p = int ?n"
    by blast
  have len: "length vs = length (rp_globals r)"
    using lit by (rule literal_values_length)
  have "map (binding_index \<circ> gv_binding) (rp_globals r)
          = map (\<lambda>k. 0 + int k) [0..<length (rp_globals r)]"
    unfolding resolve_effect(1) [OF res] length_global_variables
    by (rule index_global_variables)
  then have "\<forall>k < length (rp_globals r).
               map (binding_index \<circ> gv_binding) (rp_globals r) ! k
                 = map (\<lambda>k. 0 + int k) [0..<length (rp_globals r)] ! k"
    by simp
  then have bs: "\<forall>k < length (rp_globals r).
                   binding_index (gv_binding (rp_globals r ! k)) = 0 + int k"
    by simp
  have "int (length (constants empty_chunk)) = 0"
    by (simp add: empty_chunk_def)
  from compile_literal_inits [OF lit bs this, of r] obtain c' where
    c': "compile_global_inits r (rp_globals r) empty_chunk = Inr c'"
        "code c' = literal_inits_code 0 (length vs)" "constants c' = vs"
    by (auto simp: empty_chunk_def len)
  from compile_entry_function_chunk [OF e(1)] main c'
  have cd: "code (bf_chunk entry) = literal_inits_code 0 (length vs) @ ?rest"
    and cs: "constants (bf_chunk entry) = vs"
    and ar: "bf_arity entry = 0" "bf_num_locals entry = 0"
    using compile_entry_function_shape [OF e(1)] by auto
  have ent: "bp_functions p ! nat (bp_entry_index p) = entry"
    by (simp add: e(4) e(2))
  have call: "call_function (bp_entry_index p) 0 (VM_init p)
                = Inr \<lparr>vm_program = p, vm_stack = [],
                       vm_frames = [\<lparr>cf_function = entry, cf_ip = 0, cf_stack_base = 0\<rparr>],
                       vm_globals = replicate (length vs) 0, vm_output = []\<rparr>"
    using e(3) ar compile_globals [OF cmp]
    by (simp add: call_function_def e(4) e(2) VM_init_def Let_def len map_replicate_const)
  have "length vs \<le> 65536"
    using few by (simp add: len)
  from literal_inits_run [OF cd cs this order_refl, of p]
  have run: "steps (2 * length vs)
               \<lparr>vm_program = p, vm_stack = [],
                vm_frames = [\<lparr>cf_function = entry, cf_ip = 0, cf_stack_base = 0\<rparr>],
                vm_globals = replicate (length vs) 0, vm_output = []\<rparr>
             = Inr (entry_vm p (6 * int (length vs)) vs)"
    by (simp add: entry_vm_def ent)
  show "run_prefix (2 * length vs) p = Inr (entry_vm p (6 * int (length vs)) vs)"
    by (simp only: run_prefix_def call then_do_def sum.case run)
  have "drop (6 * length vs) (code (bf_chunk entry)) = ?rest"
    by (simp add: cd)
  then show "code_at (entry_vm p (6 * int (length vs)) vs)
           ([opcode_value CALL] @ u16_bytes (fs_index m) @ [?argc])"
    by (simp add: code_at_def entry_vm_def cur_frame_def ent nat_mult_distrib u16_bytes_def)
qed

lemma run_prefix_add: "run_prefix (a + b) p = then_do (run_prefix a p) (steps b)"
  by (simp add: run_prefix_def steps_add then_do_def split: sum.splits)

lemma run_program_prefix:
  "run_program (n + fuel) p
     = (case run_prefix n p of Inl e \<Rightarrow> Some (Inl e) | Inr vm \<Rightarrow> run_loop fuel vm)"
  by (simp add: run_program_def run_def run_prefix_def run_loop_steps then_do_def VM_init_def
        split: sum.splits)

lemma steps_1: "vm_frames vm \<noteq> [] \<Longrightarrow> steps 1 vm = step vm"
  by (simp add: then_do_def split: sum.splits)

lemma set_ip_entry_vm [simp]: "set_ip j (entry_vm p i gs) = entry_vm p j gs"
  by (simp add: set_ip_def entry_vm_def cur_frame_def)

lemma main_call_outcome:
  assumes res: "resolve prog = Inr r" and cmp: "compile r = Inr p"
    and main: "find (\<lambda>fn. fs_name fn = ''main'') (rp_functions r) = Some m"
    and idx: "fs_index m < 65536"
    and lit: "literal_values (rp_globals r) = Some vs"
    and few: "length (rp_globals r) \<le> 65536"
  shows "fd_params (fs_decl m) \<noteq> [] \<Longrightarrow>
           run_program (2 * length vs + 1 + fuel) p
             = Some (Inl (VMRuntimeError ''call stack underflow'',
                          entry_vm p (6 * int (length vs) + 4) vs))"
    and "fd_params (fs_decl m) = [] \<Longrightarrow>
           run_prefix (2 * length vs + 1) p
             = Inr ((entry_vm p (6 * int (length vs) + 4) vs)
                 \<lparr>vm_stack := replicate (nat (bf_num_locals (bp_functions p ! nat (fs_index m)))) 0,
                  vm_frames := vm_frames (entry_vm p (6 * int (length vs) + 4) vs)
                     @ [\<lparr>cf_function = bp_functions p ! nat (fs_index m), cf_ip = 0,
                          cf_stack_base = 0\<rparr>]\<rparr>)"
proof -
  let ?vm = "entry_vm p (6 * int (length vs)) vs"
  note init = literal_globals_initialized [OF res cmp main lit few]
  have pr: "vm_program ?vm = p" and fr: "vm_frames ?vm \<noteq> []" and st: "vm_stack ?vm = []"
    and ip: "cf_ip (cur_frame ?vm) = 6 * int (length vs)"
    by (simp_all add: entry_vm_def cur_frame_def)
  note call = entry_call_step(1) [OF res cmp main idx pr init(2)]
  have one: "run_prefix (2 * length vs + 1) p = step ?vm"
    by (simp only: run_prefix_add init(1) then_do_def sum.case steps_1 [OF fr])
  {
    assume "fd_params (fs_decl m) \<noteq> []"
    then have "step ?vm = Inl (VMRuntimeError ''call stack underflow'',
                 entry_vm p (6 * int (length vs) + 4) vs)"
      by (simp add: call st ip)
    then show "run_program (2 * length vs + 1 + fuel) p
             = Some (Inl (VMRuntimeError ''call stack underflow'',
                          entry_vm p (6 * int (length vs) + 4) vs))"
      by (simp only: run_program_prefix one sum.case)
  }
  {
    assume "fd_params (fs_decl m) = []"
    then have "step ?vm = Inr ((entry_vm p (6 * int (length vs) + 4) vs)
                 \<lparr>vm_stack := replicate (nat (bf_num_locals (bp_functions p ! nat (fs_index m)))) 0,
                  vm_frames := vm_frames (entry_vm p (6 * int (length vs) + 4) vs)
                     @ [\<lparr>cf_function = bp_functions p ! nat (fs_index m), cf_ip = 0,
                          cf_stack_base = 0\<rparr>]\<rparr>)"
      by (simp add: call st ip)
    then show "run_prefix (2 * length vs + 1) p
             = Inr ((entry_vm p (6 * int (length vs) + 4) vs)
                 \<lparr>vm_stack := replicate (nat (bf_num_locals (bp_functions p ! nat (fs_index m)))) 0,
                  vm_frames := vm_frames (entry_vm p (6 * int (length vs) + 4) vs)
                     @ [\<lparr>cf_function = bp_functions p ! nat (fs_index m), cf_ip = 0,
                          cf_stack_base = 0\<rparr>]\<rparr>)"
      by (simp only: one)
  }
qed

lemma step_fetch:
  "code_at vm (opcode_value oc # ops) \<Longrightarrow> step vm = exec_op oc (set_ip (cf_ip (cur_frame vm) + 1) vm)"
  by (rule step_fetched) (rule code_at_fetched)

lemma read_u16_operand:
  assumes c: "code_at vm (b0 # a # b # rest)"
  shows "read_u16 (set_ip (cf_ip (cur_frame vm) + 1) vm)
           = Inr (push_bit 8 a OR b, set_ip (cf_ip (cur_frame vm) + 3) vm)"
proof -
  have "py_get (code (bf_chunk (cf_function (cur_frame vm)))) (cf_ip (cur_frame vm) + int 1) = Some a"
    using code_at_get(1) [OF c, of 1] by simp
  moreover have "py_get (code (bf_chunk (cf_function (cur_frame vm)))) (cf_ip (cur_frame vm) + int 2) = Some b"
    using code_at_get(1) [OF c, of 2] by simp
  ultimately show ?thesis
    by (simp add: read_u16_at algebra_simps)
qed

lemma read_byte_operand:
  assumes c: "code_at vm [b0, a, b, x]"
  shows "read_byte (set_ip (cf_ip (cur_frame vm) + 3) vm)
           = Inr (x, set_ip (cf_ip (cur_frame vm) + 4) vm)"
proof -
  have "py_get (code (bf_chunk (cf_function (cur_frame vm)))) (cf_ip (cur_frame vm) + int 3) = Some x"
    using code_at_get(1) [OF c, of 3] by simp
  then show ?thesis
    by (simp add: read_byte_def Let_def algebra_simps)
qed

lemma int_length_butlast: "xs \<noteq> [] \<Longrightarrow> int (length (butlast xs)) = int (length xs) - 1"
  by (cases xs rule: rev_cases) simp_all

lemma frames_set_ip_eq:
  "vm_frames (set_ip j vm) = butlast (vm_frames vm) @ [(cur_frame vm)\<lparr>cf_ip := j\<rparr>]"
  by (simp add: set_ip_def)

lemma plain_step_u16:
  assumes c: "code_at vm (enc (Instr oc [a, b]))"
    and oc: "oc \<in> {PUSH_CONST, LOAD_LOCAL, STORE_LOCAL, LOAD_GLOBAL, STORE_GLOBAL}"
    and s: "step vm = Inr vm'"
  shows "vm_frames vm' = advanced vm (Instr oc [a, b]) \<and>
         int (length (vm_stack vm')) = int (length (vm_stack vm)) + eff (Instr oc [a, b])"
proof -
  let ?ip = "cf_ip (cur_frame vm)"
  have c': "code_at vm (opcode_value oc # a # b # [])"
    using c by simp
  note f = step_fetch [OF c'] and r = read_u16_operand [OF c']
  have adv: "vm_frames (set_ip (?ip + 3) vm) = advanced vm (Instr oc [a, b])"
    by (simp add: advanced_def frames_set_ip_eq)
  from oc consider "oc = PUSH_CONST" | "oc = LOAD_LOCAL" | "oc = STORE_LOCAL" | "oc = LOAD_GLOBAL"
    | "oc = STORE_GLOBAL"
    by auto
  then show ?thesis
  proof cases
    case 1
    with s f r adv show ?thesis
      by (auto simp: then_do_def push_def split: option.splits)
  next
    case 2
    with s f r adv show ?thesis
      by (auto simp: then_do_def push_def load_local_def Let_def split: option.splits if_splits)
  next
    case 3
    with s f r adv show ?thesis
      by (auto simp: then_do_def store_local_def pop_def py_set_def Let_def int_length_butlast
            simp del: length_butlast split: option.splits if_splits)
  next
    case 4
    with s f r adv show ?thesis
      by (auto simp: then_do_def push_def split: option.splits)
  next
    case 5
    with s f r adv show ?thesis
      by (auto simp: then_do_def store_global_def pop_def py_set_def Let_def int_length_butlast
            simp del: length_butlast split: option.splits if_splits)
  qed
qed

lemma plain_step_binary:
  assumes c: "code_at vm (enc (Instr oc []))"
    and oc: "oc \<in> {ADD, SUB, MUL, DIV}"
    and s: "step vm = Inr vm'"
  shows "vm_frames vm' = advanced vm (Instr oc []) \<and>
         int (length (vm_stack vm')) = int (length (vm_stack vm)) + eff (Instr oc [])"
proof -
  let ?ip = "cf_ip (cur_frame vm)"
  have c': "code_at vm (opcode_value oc # [])"
    using c by simp
  note f = step_fetch [OF c']
  have adv: "vm_frames (set_ip (?ip + 1) vm) = advanced vm (Instr oc [])"
    by (simp add: advanced_def frames_set_ip_eq)
  have e: "eff (Instr oc []) = - 1"
    using oc by auto
  have b: "binary g (set_ip (?ip + 1) vm) = Inr vm' \<Longrightarrow> ?thesis" for g
    unfolding e using adv
    by (auto simp: binary_def then_do_def pop_def push_def int_length_butlast
          simp del: length_butlast split: if_splits sum.splits)
  from oc consider "oc = ADD" | "oc = SUB" | "oc = MUL" | "oc = DIV"
    by auto
  then show ?thesis
  proof cases
    case 1
    with s f show ?thesis by (intro b [of "\<lambda>a b. Inr (a + b)"]) simp
  next
    case 2
    with s f show ?thesis by (intro b [of "\<lambda>a b. Inr (a - b)"]) simp
  next
    case 3
    with s f show ?thesis by (intro b [of "\<lambda>a b. Inr (a * b)"]) simp
  next
    case 4
    with s f show ?thesis by (intro b [of safe_div]) simp
  qed
qed

lemma plain_step_call:
  assumes c: "code_at vm (enc (Instr CALL [a, b, argc]))"
    and s: "step vm = Inr vm'"
  shows "\<exists>new. vm_frames vm' = advanced vm (Instr CALL [a, b, argc]) @ [new] \<and>
           0 \<le> cf_stack_base new \<and>
           cf_stack_base new + 1 = int (length (vm_stack vm)) + eff (Instr CALL [a, b, argc])"
proof -
  let ?ip = "cf_ip (cur_frame vm)"
  have c': "code_at vm (opcode_value CALL # a # b # [argc])" and c'': "code_at vm [opcode_value CALL, a, b, argc]"
    using c by simp_all
  note f = step_fetch [OF c'] and r = read_u16_operand [OF c'] and rb = read_byte_operand [OF c'']
  have adv: "vm_frames (set_ip (?ip + 4) vm) = advanced vm (Instr CALL [a, b, argc])"
    by (simp add: advanced_def frames_set_ip_eq)
  from s f r rb have "call_function (push_bit 8 a OR b) argc (set_ip (?ip + 4) vm) = Inr vm'"
    by (simp add: then_do_def)
  then show ?thesis
    using adv by (auto simp: call_function_def Let_def split: if_splits)
qed

lemma plain_step:
  assumes c: "code_at vm (enc i)" and pl: "plain i" and s: "step vm = Inr vm'"
  shows "(vm_frames vm' = advanced vm i \<and>
          int (length (vm_stack vm')) = int (length (vm_stack vm)) + eff i) \<or>
         (\<exists>new. vm_frames vm' = advanced vm i @ [new] \<and> 0 \<le> cf_stack_base new \<and>
            cf_stack_base new + 1 = int (length (vm_stack vm)) + eff i)"
proof -
  obtain oc ops where i: "i = Instr oc ops"
    by (cases i)
  show ?thesis
  proof (cases "oc = CALL")
    case True
    with pl i obtain a b argc where "ops = [a, b, argc]"
      by (auto simp: length_Suc_conv numeral_3_eq_3)
    with plain_step_call [of vm a b argc vm'] c s i True show ?thesis
      by simp
  next
    case False
    show ?thesis
    proof (cases "oc \<in> {PUSH_CONST, LOAD_LOCAL, STORE_LOCAL, LOAD_GLOBAL, STORE_GLOBAL}")
      case True
      with pl i False obtain a b where "ops = [a, b]"
        by (auto simp: length_Suc_conv numeral_2_eq_2)
      with plain_step_u16 [of vm oc a b vm'] c s i True show ?thesis
        by simp
    next
      case f: False
      with pl i False have "oc \<in> {ADD, SUB, MUL, DIV}" "ops = []"
        by (auto split: if_splits)
      with plain_step_binary [of vm oc vm'] c s i show ?thesis
        by simp
    qed
  qed
qed

lemma moved_same:
  "vm_frames vm \<noteq> [] \<Longrightarrow> vm_frames vm' = vm_frames vm \<Longrightarrow> frames_step vm vm'"
proof -
  assume a: "vm_frames vm \<noteq> []" "vm_frames vm' = vm_frames vm"
  have "vm_frames vm' = butlast (vm_frames vm) @ [(cur_frame vm)\<lparr>cf_ip := cf_ip (cur_frame vm)\<rparr>]"
    using a by (simp add: cur_frame_def)
  then show ?thesis
    unfolding frames_step_def by blast
qed

lemma moved_set_ip:
  "vm_frames vm' = vm_frames (set_ip j vm) \<Longrightarrow> frames_step vm vm'"
  unfolding frames_step_def by (auto simp: frames_set_ip_eq)

lemma read_u16_Inr:
  "read_u16 vm = Inr (x, vm1) \<Longrightarrow> vm1 = set_ip (cf_ip (cur_frame vm) + 2) vm"
  by (auto simp: read_u16_def Let_def split: option.splits)

lemma read_byte_Inr:
  "read_byte vm = Inr (x, vm1) \<Longrightarrow> vm1 = set_ip (cf_ip (cur_frame vm) + 1) vm"
  by (auto simp: read_byte_def Let_def split: option.splits)

lemma pop_Inr:
  "pop vm = Inr (x, vm1) \<Longrightarrow> vm1 = vm\<lparr>vm_stack := butlast (vm_stack vm)\<rparr>"
  by (auto simp: pop_def split: if_splits)

lemma binary_frames: "binary g vm = Inr vm' \<Longrightarrow> vm_frames vm' = vm_frames vm"
  by (auto simp: binary_def then_do_def pop_def push_def split: if_splits sum.splits)

lemma store_local_frames: "store_local i vm = Inr vm' \<Longrightarrow> vm_frames vm' = vm_frames vm"
  by (auto simp: store_local_def then_do_def pop_def Let_def split: if_splits option.splits)

lemma load_local_frames: "load_local i vm = Inr (v, vm') \<Longrightarrow> vm_frames vm' = vm_frames vm"
  by (auto simp: load_local_def Let_def split: if_splits option.splits)

lemma store_global_frames: "store_global i vm = Inr vm' \<Longrightarrow> vm_frames vm' = vm_frames vm"
  by (auto simp: store_global_def then_do_def pop_def Let_def split: if_splits option.splits)

lemma call_function_frames:
  "call_function k argc vm = Inr vm' \<Longrightarrow>
     \<exists>new. vm_frames vm' = vm_frames vm @ [new] \<and> 0 \<le> cf_stack_base new"
  by (auto simp: call_function_def Let_def split: if_splits)

lemma py_del_from_length: "0 \<le> b \<Longrightarrow> int (length (py_del_from xs b)) \<le> b"
  by (simp add: py_del_from_def)

lemma return_op_frames:
  assumes "return_op vm = Inr vm'"
  shows "vm_frames vm' = butlast (vm_frames vm) \<and>
         (0 \<le> cf_stack_base (cur_frame vm) \<longrightarrow>
            int (length (vm_stack vm')) \<le> cf_stack_base (cur_frame vm) + 1)"
  using assms py_del_from_length [of "cf_stack_base (last (vm_frames vm))" "butlast (vm_stack vm)"]
  by (auto simp: return_op_def then_do_def pop_def Let_def cur_frame_def split: if_splits)

lemma exec_op_frames:
  assumes e: "exec_op oc vm = Inr vm'" and fr: "vm_frames vm \<noteq> []"
  shows "frames_step vm vm'"
proof (cases oc)
  case PUSH_CONST
  with e show ?thesis
    by (auto simp: then_do_def push_def split: sum.splits option.splits
          dest!: read_u16_Inr intro!: moved_set_ip)
next
  case LOAD_LOCAL
  with e show ?thesis
    by (auto simp: then_do_def push_def split: sum.splits
          dest!: read_u16_Inr load_local_frames intro!: moved_set_ip)
next
  case STORE_LOCAL
  with e show ?thesis
    by (auto simp: then_do_def split: sum.splits
          dest!: read_u16_Inr store_local_frames intro!: moved_set_ip)
next
  case LOAD_GLOBAL
  with e show ?thesis
    by (auto simp: then_do_def push_def split: sum.splits option.splits
          dest!: read_u16_Inr intro!: moved_set_ip)
next
  case STORE_GLOBAL
  with e show ?thesis
    by (auto simp: then_do_def split: sum.splits
          dest!: read_u16_Inr store_global_frames intro!: moved_set_ip)
next
  case ADD
  with e fr show ?thesis
    by (auto dest!: binary_frames intro!: moved_same)
next
  case SUB
  with e fr show ?thesis
    by (auto dest!: binary_frames intro!: moved_same)
next
  case MUL
  with e fr show ?thesis
    by (auto dest!: binary_frames intro!: moved_same)
next
  case DIV
  with e fr show ?thesis
    by (auto dest!: binary_frames intro!: moved_same)
next
  case JMP
  with e show ?thesis
    by (auto simp: then_do_def split: sum.splits dest!: read_u16_Inr intro!: moved_set_ip)
next
  case JMP_IF_FALSE
  with e obtain j where "vm_frames vm' = vm_frames (set_ip j vm)"
    by (auto simp: then_do_def split: sum.splits if_splits dest!: read_u16_Inr pop_Inr)
  then show ?thesis
    by (rule moved_set_ip)
next
  case CALL
  with e obtain x argc where "call_function x argc (set_ip (cf_ip (cur_frame vm) + 3) vm) = Inr vm'"
    by (auto simp: then_do_def algebra_simps split: sum.splits dest!: read_u16_Inr read_byte_Inr)
  from call_function_frames [OF this] show ?thesis
    unfolding frames_step_def by (auto simp: frames_set_ip_eq)
next
  case RET
  with e return_op_frames [of vm vm'] show ?thesis
    unfolding frames_step_def by simp
next
  case PRINT
  with e fr show ?thesis
    by (auto simp: then_do_def split: sum.splits dest!: pop_Inr intro!: moved_same)
next
  case POP
  with e fr show ?thesis
    by (auto simp: then_do_def split: sum.splits dest!: pop_Inr intro!: moved_same)
next
  case HALT
  with e show ?thesis
    by (auto simp: frames_step_def)
qed

lemma step_frames:
  assumes s: "step vm = Inr vm'" and fr: "vm_frames vm \<noteq> []"
  shows "frames_step vm vm'"
proof -
  from s obtain oc where "exec_op oc (set_ip (cf_ip (cur_frame vm) + 1) vm) = Inr vm'"
    by (auto simp: step_def Let_def split: if_splits option.splits)
  from exec_op_frames [OF this] have "frames_step (set_ip (cf_ip (cur_frame vm) + 1) vm) vm'"
    by simp
  then show ?thesis
    using fr
    by (simp add: frames_step_def frames_set_ip_eq cur_frame_def)
qed

lemma emits_none: "emits c c 0"
  unfolding emits_def by (rule exI [of _ "[]"]) simp

lemma emits_trans:
  assumes "emits c c1 d1" and "emits c1 c2 d2"
  shows "emits c c2 (d1 + d2)"
proof -
  from assms obtain xs ys where
    "code c1 = code c @ concat (map enc xs)" "list_all plain xs" "sum_list (map eff xs) = d1"
    "code c2 = code c1 @ concat (map enc ys)" "list_all plain ys" "sum_list (map eff ys) = d2"
    unfolding emits_def by blast
  then show ?thesis
    unfolding emits_def by (intro exI [of _ "xs @ ys"]) simp
qed

lemma emits_one:
  assumes "code c' = code c @ enc i" and "plain i"
  shows "emits c c' (eff i)"
  unfolding emits_def using assms by (intro exI [of _ "[i]"]) simp

lemma length_u16_bytes [simp]: "length (u16_bytes v) = 2"
  by (simp add: u16_bytes_def)

lemma emits_op_u16:
  assumes "oc \<in> {PUSH_CONST, LOAD_LOCAL, STORE_LOCAL, LOAD_GLOBAL, STORE_GLOBAL}"
  shows "emits c (emit_u16 v line (emit oc line c)) (eff (Instr oc (u16_bytes v)))"
proof (rule emits_one)
  show "code (emit_u16 v line (emit oc line c)) = code c @ enc (Instr oc (u16_bytes v))"
    by (simp add: emit_def emit_u16_def write_u16_bytes chunk_write_def)
  show "plain (Instr oc (u16_bytes v))"
    using assms by auto
qed

lemma emits_binary:
  assumes "op_map operator = Some oc"
  shows "emits c (emit oc line c) (- 1)"
proof -
  from assms have oc: "oc \<in> {ADD, SUB, MUL, DIV}"
    by (auto simp: op_map_def split: if_splits)
  have "emits c (emit oc line c) (eff (Instr oc []))"
    using oc by (intro emits_one) (auto simp: emit_def chunk_write_def)
  then show ?thesis
    using oc by auto
qed

lemma emits_call: "emits c (emit_call k argc line c) (1 - argc)"
proof -
  have "emits c (emit_call k argc line c) (eff (Instr CALL (u16_bytes k @ [argc])))"
    by (intro emits_one)
       (simp_all add: emit_call_def emit_def emit_u16_def write_u16_bytes chunk_write_def)
  then show ?thesis
    by simp
qed

lemma compile_expr_emits:
  "compile_expr r e c = Inr c' \<Longrightarrow> emits c c' 1"
  "compile_exprs r es c = Inr c' \<Longrightarrow> emits c c' (int (length es))"
proof (induction r e c and r es c arbitrary: c' and c' rule: compile_expr_compile_exprs.induct)
  case (1 r line v c)
  then have "c' = emit_u16 (int (length (constants c))) line
                    (emit PUSH_CONST line (c\<lparr>constants := constants c @ [v]\<rparr>))"
    by (simp add: add_constant_def Let_def)
  moreover have "emits (c\<lparr>constants := constants c @ [v]\<rparr>)
      (emit_u16 (int (length (constants c))) line
         (emit PUSH_CONST line (c\<lparr>constants := constants c @ [v]\<rparr>)))
      (eff (Instr PUSH_CONST (u16_bytes (int (length (constants c))))))"
    by (rule emits_op_u16) simp
  ultimately show ?case
    by (simp add: emits_def)
next
  case (2 r n line name c)
  then obtain bn bm index where
    "c' = emit_load_local index line c \<or> c' = emit_load_global index line c"
    by (auto split: sum.splits VarBinding.splits)
  then show ?case
    using emits_op_u16 [of LOAD_LOCAL c index line] emits_op_u16 [of LOAD_GLOBAL c index line]
    by (auto simp: emit_load_local_def emit_load_global_def)
next
  case (3 r n line name v c)
  from "3.prems" obtain binding c1 where
    s: "binding_for_node r n = Inr binding" "compile_expr r v c = Inr c1"
    by (auto split: sum.splits)
  from "3.IH" [OF s] have v: "emits c c1 1" .
  from "3.prems" s obtain index where
    "c' = emit_load_local index line (emit_store_local index line c1)
       \<or> c' = emit_load_global index line (emit_store_global index line c1)"
    by (auto split: VarBinding.splits)
  then have "emits c1 c' (- 1 + 1)"
  proof
    assume c': "c' = emit_load_local index line (emit_store_local index line c1)"
    show ?thesis
      unfolding c'
      using emits_op_u16 [of STORE_LOCAL c1 index line]
        emits_op_u16 [of LOAD_LOCAL "emit_store_local index line c1" index line]
      by (intro emits_trans) (simp_all add: emit_load_local_def emit_store_local_def)
  next
    assume c': "c' = emit_load_global index line (emit_store_global index line c1)"
    show ?thesis
      unfolding c'
      using emits_op_u16 [of STORE_GLOBAL c1 index line]
        emits_op_u16 [of LOAD_GLOBAL "emit_store_global index line c1" index line]
      by (intro emits_trans) (simp_all add: emit_load_global_def emit_store_global_def)
  qed
  with emits_trans [OF v] show ?case
    by fastforce
next
  case (4 r line left operator right c)
  from "4.prems" obtain c1 c2 oc where
    s: "compile_expr r left c = Inr c1" "compile_expr r right c1 = Inr c2"
       "op_map operator = Some oc" "c' = emit oc line c2"
    by (auto split: sum.splits option.splits)
  from "4.IH"(1) [OF s(1)] have l: "emits c c1 1" .
  from "4.IH"(2) [OF s(1) s(2)] have rr: "emits c1 c2 1" .
  from emits_trans [OF emits_trans [OF l rr] emits_binary [OF s(3), of c2 line]] show ?case
    by (simp add: s(4))
next
  case (5 r n line callee arguments c)
  from "5.prems" obtain symbol c1 where
    s: "rp_call_targets r n = Some symbol" "compile_exprs r arguments c = Inr c1"
       "c' = emit_call (fs_index symbol) (int (length arguments)) line c1"
    by (auto split: sum.splits option.splits)
  from "5.IH" [OF s(1) s(2)] have a: "emits c c1 (int (length arguments))" .
  from emits_trans [OF a emits_call [of c1 "fs_index symbol" "int (length arguments)" line]]
  show ?case
    by (simp add: s(3))
next
  case (6 r c)
  then show ?case
    by (simp add: emits_none)
next
  case (7 r a as c)
  from "7.prems" obtain c1 where
    s: "compile_expr r a c = Inr c1" "compile_exprs r as c1 = Inr c'"
    by (auto split: sum.splits)
  from emits_trans [OF "7.IH"(1) [OF s(1)] "7.IH"(2) [OF s(1) s(2)]] show ?case
    by simp
qed

lemma compile_global_inits_emits:
  "compile_global_inits r gs c = Inr c' \<Longrightarrow> emits c c' 0"
proof (induction gs arbitrary: c)
  case Nil
  then show ?case
    by (simp add: emits_none)
next
  case (Cons g gs)
  from Cons.prems obtain c1 where
    s: "compile_expr r (vd_initializer (gv_decl g)) c = Inr c1"
       "compile_global_inits r gs
          (emit_store_global (binding_index (gv_binding g)) (vd_line (gv_decl g)) c1) = Inr c'"
    by (auto split: sum.splits)
  have "emits c1 (emit_store_global (binding_index (gv_binding g)) (vd_line (gv_decl g)) c1) (- 1)"
    using emits_op_u16 [of STORE_GLOBAL c1 "binding_index (gv_binding g)" "vd_line (gv_decl g)"]
    by (simp add: emit_store_global_def)
  from emits_trans [OF emits_trans [OF compile_expr_emits(1) [OF s(1)] this] Cons.IH [OF s(2)]]
  show ?case
    by simp
qed

lemma entry_inv_single:
  assumes "vm_program vm = p" and "k \<le> length ins" and "vm_frames vm = [entry_frame f ins k]"
    and "int (length (vm_stack vm)) \<le> height ins k"
  shows "entry_inv p f ins vm"
  unfolding entry_inv_def using assms by auto

lemma entry_inv_deep:
  assumes "vm_program vm = p" and "k \<le> length ins"
    and "vm_frames vm = entry_frame f ins k # x # xs"
    and "0 \<le> cf_stack_base x" and "cf_stack_base x + 1 \<le> height ins k"
  shows "entry_inv p f ins vm"
  unfolding entry_inv_def using assms by auto

lemma entry_frame_Suc:
  assumes "k < length ins"
  shows "(entry_frame f ins k)\<lparr>cf_ip := cf_ip (entry_frame f ins k) + int (length (enc (ins ! k)))\<rparr>
           = entry_frame f ins (Suc k)"
    and "height ins k + eff (ins ! k) = height ins (Suc k)"
  using assms by (simp_all add: entry_frame_def height_def take_Suc_conv_app_nth)

lemma code_at_entry_frame:
  assumes cd: "code (bf_chunk f) = concat (map enc ins) @ rest"
    and fr: "vm_frames vm = [entry_frame f ins k]"
  shows "k < length ins \<Longrightarrow> code_at vm (enc (ins ! k))"
    and "k = length ins \<Longrightarrow> code_at vm (take n rest)"
proof -
  let ?pre = "concat (map enc (take k ins))"
  have "concat (map enc ins) = ?pre @ concat (map enc (drop k ins))"
    by (metis append_take_drop_id concat_append map_append)
  then have d: "drop (length ?pre) (code (bf_chunk f)) = concat (map enc (drop k ins)) @ rest"
    by (simp add: cd)
  have cur: "cur_frame vm = entry_frame f ins k"
    by (simp add: cur_frame_def fr)
  {
    assume "k < length ins"
    then have "drop k ins = ins ! k # drop (Suc k) ins"
      by (simp add: Cons_nth_drop_Suc)
    with d show "code_at vm (enc (ins ! k))"
      by (simp add: code_at_def cur fr entry_frame_def)
  }
  {
    assume "k = length ins"
    with d show "code_at vm (take n rest)"
      by (simp add: code_at_def cur fr entry_frame_def min_def)
  }
qed

lemma entry_inv_step:
  assumes cd: "code (bf_chunk f) = concat (map enc ins) @ rest"
    and pl: "list_all plain ins"
    and stop: "\<And>vm. vm_program vm = p \<Longrightarrow> vm_frames vm = [entry_frame f ins (length ins)] \<Longrightarrow>
                 int (length (vm_stack vm)) \<le> height ins (length ins) \<Longrightarrow> \<exists>e. step vm = Inl e"
    and inv: "entry_inv p f ins vm" and fr: "vm_frames vm \<noteq> []" and s: "step vm = Inr vm'"
  shows "entry_inv p f ins vm'"
proof -
  have pr: "vm_program vm' = p"
    using step_program(1) [OF s] inv by (simp add: entry_inv_def)
  from inv fr obtain k where k: "k \<le> length ins" "hd (vm_frames vm) = entry_frame f ins k"
    and alt: "(length (vm_frames vm) = 1 \<and> int (length (vm_stack vm)) \<le> height ins k) \<or>
              (2 \<le> length (vm_frames vm) \<and> 0 \<le> cf_stack_base (vm_frames vm ! 1) \<and>
                 cf_stack_base (vm_frames vm ! 1) + 1 \<le> height ins k)"
    unfolding entry_inv_def by blast
  from alt show ?thesis
  proof
    assume a: "length (vm_frames vm) = 1 \<and> int (length (vm_stack vm)) \<le> height ins k"
    then have fs: "vm_frames vm = [entry_frame f ins k]"
      using k(2) by (cases "vm_frames vm") simp_all
    have cur: "cur_frame vm = entry_frame f ins k"
      by (simp add: cur_frame_def fs)
    have "k \<noteq> length ins"
      using stop [of vm] inv fs a s by (auto simp: entry_inv_def)
    with k(1) have kl: "k < length ins"
      by simp
    have adv: "advanced vm (ins ! k) = [entry_frame f ins (Suc k)]"
      using entry_frame_Suc(1) [OF kl, of f] by (simp add: advanced_def fs cur)
    from pl kl have "plain (ins ! k)"
      by (simp add: list_all_length)
    from plain_step [OF code_at_entry_frame(1) [OF cd fs kl] this s]
    show ?thesis
    proof
      assume "vm_frames vm' = advanced vm (ins ! k) \<and>
              int (length (vm_stack vm')) = int (length (vm_stack vm)) + eff (ins ! k)"
      then have "vm_frames vm' = [entry_frame f ins (Suc k)]"
        and "int (length (vm_stack vm')) \<le> height ins (Suc k)"
        using a entry_frame_Suc(2) [OF kl] by (simp_all add: adv)
      then show ?thesis
        using pr kl by (intro entry_inv_single [where k = "Suc k"]) simp_all
    next
      assume "\<exists>new. vm_frames vm' = advanced vm (ins ! k) @ [new] \<and> 0 \<le> cf_stack_base new \<and>
                cf_stack_base new + 1 = int (length (vm_stack vm)) + eff (ins ! k)"
      then obtain new where "vm_frames vm' = [entry_frame f ins (Suc k), new]"
        and "0 \<le> cf_stack_base new" and "cf_stack_base new + 1 \<le> height ins (Suc k)"
        using a entry_frame_Suc(2) [OF kl] by (auto simp: adv)
      then show ?thesis
        using pr kl by (intro entry_inv_deep [where k = "Suc k" and x = new and xs = "[]"]) simp_all
    qed
  next
    assume b: "2 \<le> length (vm_frames vm) \<and> 0 \<le> cf_stack_base (vm_frames vm ! 1) \<and>
               cf_stack_base (vm_frames vm ! 1) + 1 \<le> height ins k"
    then obtain mid l where fs: "vm_frames vm = entry_frame f ins k # mid @ [l]"
    proof -
      from b have "vm_frames vm \<noteq> []" "tl (vm_frames vm) \<noteq> []"
        by (cases "vm_frames vm"; auto)+
      then obtain e tl where t: "vm_frames vm = e # tl" "tl \<noteq> []"
        by (cases "vm_frames vm") auto
      then obtain mid l where "tl = mid @ [l]"
        by (cases tl rule: rev_cases) auto
      with t k(2) that show ?thesis
        by simp
    qed
    have cur: "cur_frame vm = l"
      by (simp add: cur_frame_def fs)
    have b1: "cf_stack_base ((mid @ [l]) ! 0) = cf_stack_base (vm_frames vm ! 1)"
      by (simp add: fs)
    have keep: "entry_inv p f ins vm'"
      if "vm_frames vm' = entry_frame f ins k # mid @ l' # more"
        and "cf_stack_base l' = cf_stack_base l" for l' more
    proof (cases mid)
      case Nil
      with that b pr k(1) show ?thesis
        by (intro entry_inv_deep [where k = k and x = l' and xs = more]) (simp_all add: fs)
    next
      case (Cons m mid')
      with that b pr k(1) show ?thesis
        by (intro entry_inv_deep [where k = k and x = m and xs = "mid' @ l' # more"]) (simp_all add: fs)
    qed
    from step_frames [OF s fr] show ?thesis
      unfolding frames_step_def
    proof (elim disjE exE conjE)
      assume "vm_frames vm' = []"
      then show ?thesis
        by (simp add: entry_inv_def pr)
    next
      fix ip
      assume "vm_frames vm' = butlast (vm_frames vm) @ [(cur_frame vm)\<lparr>cf_ip := ip\<rparr>]"
      then show ?thesis
        by (intro keep [of "l\<lparr>cf_ip := ip\<rparr>" "[]"]) (simp_all add: fs cur butlast_append)
    next
      fix ip new
      assume "vm_frames vm' = butlast (vm_frames vm) @ [(cur_frame vm)\<lparr>cf_ip := ip\<rparr>, new]"
      then show ?thesis
        by (intro keep [of "l\<lparr>cf_ip := ip\<rparr>" "[new]"]) (simp_all add: fs cur butlast_append)
    next
      assume r: "vm_frames vm' = butlast (vm_frames vm)"
        and bound: "0 \<le> cf_stack_base (cur_frame vm) \<longrightarrow>
                      int (length (vm_stack vm')) \<le> cf_stack_base (cur_frame vm) + 1"
      show ?thesis
      proof (cases mid rule: rev_cases)
        case Nil
        then have "vm_frames vm' = [entry_frame f ins k]"
          and "int (length (vm_stack vm')) \<le> height ins k"
          using r bound b by (simp_all add: fs cur)
        then show ?thesis
          using pr k(1) by (intro entry_inv_single [where k = k]) simp_all
      next
        case (snoc mid' l')
        have "vm_frames vm' = entry_frame f ins k # mid' @ l' # []"
          using r by (simp add: fs snoc butlast_append)
        moreover have "cf_stack_base ((mid' @ [l']) ! 0) = cf_stack_base (vm_frames vm ! 1)"
          by (cases mid') (simp_all add: fs snoc)
        ultimately show ?thesis
          using pr k(1) b
          by (cases mid') (auto intro!: entry_inv_deep [where k = k])
      qed
    qed
  qed
qed

lemma entry_inv_steps:
  assumes cd: "code (bf_chunk f) = concat (map enc ins) @ rest"
    and pl: "list_all plain ins"
    and stop: "\<And>vm. vm_program vm = p \<Longrightarrow> vm_frames vm = [entry_frame f ins (length ins)] \<Longrightarrow>
                 int (length (vm_stack vm)) \<le> height ins (length ins) \<Longrightarrow> \<exists>e. step vm = Inl e"
  shows "entry_inv p f ins vm \<Longrightarrow> steps n vm = Inr vm' \<Longrightarrow> entry_inv p f ins vm'"
proof (induction n arbitrary: vm)
  case 0
  then show ?case by simp
next
  case (Suc n)
  show ?case
  proof (cases "vm_frames vm = []")
    case True
    with Suc.prems show ?thesis by simp
  next
    case False
    with Suc.prems(2) obtain vm1 where s: "step vm = Inr vm1" "steps n vm1 = Inr vm'"
      by (auto simp: then_do_def split: sum.splits)
    from entry_inv_step [OF cd pl stop Suc.prems(1) False s(1)]
    have "entry_inv p f ins vm1"
      by blast
    from Suc.IH [OF this s(2)] show ?thesis .
  qed
qed

lemma enc_offsets_inj:
  assumes "k \<le> length ins"
    and "length (concat (map enc (take k ins))) = length (concat (map enc ins))"
  shows "k = length ins"
proof (rule ccontr)
  assume "k \<noteq> length ins"
  with assms(1) have kl: "k < length ins"
    by simp
  have "concat (map enc ins) = concat (map enc (take k ins)) @ concat (map enc (drop k ins))"
    by (metis append_take_drop_id concat_append map_append)
  with assms(2) have "concat (map enc (drop k ins)) = []"
    by simp
  moreover have "drop k ins = ins ! k # drop (Suc k) ins"
    using kl by (simp add: Cons_nth_drop_Suc)
  ultimately have "enc (ins ! k) = []"
    by simp
  then show False
    by (cases "ins ! k") simp
qed

lemma main_call_underflows:
  assumes res: "resolve prog = Inr r" and cmp: "compile r = Inr p"
    and main: "find (\<lambda>fn. fs_name fn = ''main'') (rp_functions r) = Some m"
    and idx: "fs_index m < 65536"
    and params: "fd_params (fs_decl m) \<noteq> []"
    and inits: "compile_global_inits r (rp_globals r) empty_chunk = Inr c1"
    and reach: "run_prefix n p = Inr vm"
    and at: "vm_frames vm = [\<lparr>cf_function = bp_functions p ! nat (bp_entry_index p),
                               cf_ip = int (length (code c1)), cf_stack_base = 0\<rparr>]"
  shows "vm_stack vm = []"
    and "step vm = Inl (VMRuntimeError ''call stack underflow'',
                        set_ip (int (length (code c1)) + 4) vm)"
    and "run_program (Suc n + fuel) p
           = Some (Inl (VMRuntimeError ''call stack underflow'',
                        set_ip (int (length (code c1)) + 4) vm))"
proof -
  let ?n = "length (rp_functions r)"
  let ?argc = "int (length (fd_params (fs_decl m)))"
  let ?call = "[opcode_value CALL] @ u16_bytes (fs_index m) @ [?argc]"
  let ?rest = "?call @ [opcode_value POP, opcode_value HALT]"
  from compile_structure [OF res cmp] obtain entry where
    e: "compile_entry_function r = Inr entry" "bp_functions p ! ?n = entry"
       "length (bp_functions p) = Suc ?n" "bp_entry_index p = int ?n"
    by blast
  have ent: "bp_functions p ! nat (bp_entry_index p) = entry"
    by (simp add: e(4) e(2))
  from compile_entry_function_chunk [OF e(1)] main inits
  have code: "code (bf_chunk entry) = code c1 @ ?rest"
    by auto
  from compile_entry_function_shape [OF e(1)]
  have ar: "bf_arity entry = 0" "bf_num_locals entry = 0"
    by auto
  from compile_global_inits_emits [OF inits] obtain ins where
    ins: "code c1 = concat (map enc ins)" "list_all plain ins" "sum_list (map eff ins) = 0"
    by (auto simp: emits_def empty_chunk_def)
  have cd: "code (bf_chunk entry) = concat (map enc ins) @ ?rest"
    by (simp add: code ins(1))
  have h: "height ins (length ins) = 0"
    by (simp add: height_def ins(3))
  have last_frame: "entry_frame entry ins (length ins)
                      = \<lparr>cf_function = entry, cf_ip = int (length (code c1)), cf_stack_base = 0\<rparr>"
    by (simp add: entry_frame_def ins(1))
  have at_call: "step v = Inl (VMRuntimeError ''call stack underflow'',
                              set_ip (int (length (code c1)) + 4) v)"
    if v: "vm_program v = p" "vm_frames v = [entry_frame entry ins (length ins)]"
      "int (length (vm_stack v)) \<le> height ins (length ins)" for v
  proof -
    have "code_at v (take 4 ?rest)"
      by (rule code_at_entry_frame(2) [OF cd v(2) refl])
    then have c: "code_at v ?call"
      by simp
    have "cf_ip (cur_frame v) = int (length (code c1))"
      by (simp add: cur_frame_def v(2) last_frame)
    moreover have "int (length (vm_stack v)) < ?argc"
      using v(3) params by (simp add: h)
    ultimately show ?thesis
      using entry_call_step(1) [OF res cmp main idx v(1) c] by simp
  qed
  then have stop: "\<And>v. vm_program v = p \<Longrightarrow> vm_frames v = [entry_frame entry ins (length ins)] \<Longrightarrow>
                 int (length (vm_stack v)) \<le> height ins (length ins) \<Longrightarrow> \<exists>e. step v = Inl e"
    by blast
  let ?vm0 = "(VM_init p)\<lparr>vm_frames := [entry_frame entry ins 0]\<rparr>"
  have call: "call_function (bp_entry_index p) 0 (VM_init p) = Inr ?vm0"
    using e(3) ar by (simp add: call_function_def e(4) e(2) VM_init_def Let_def entry_frame_def)
  have inv0: "entry_inv p entry ins ?vm0"
    by (rule entry_inv_single [where k = 0]) (simp_all add: VM_init_def height_def)
  from reach have run: "steps n ?vm0 = Inr vm"
    by (simp add: run_prefix_def call then_do_def)
  have inv: "entry_inv p entry ins vm"
  proof (rule entry_inv_steps [OF cd ins(2) _ inv0 run])
    fix v :: VM
    assume "vm_program v = p" "vm_frames v = [entry_frame entry ins (length ins)]"
      "int (length (vm_stack v)) \<le> height ins (length ins)"
    then show "\<exists>e. step v = Inl e"
      by (rule stop)
  qed
  from inv at obtain k where k: "k \<le> length ins"
    "hd (vm_frames vm) = entry_frame entry ins k"
    "int (length (vm_stack vm)) \<le> height ins k"
    by (auto simp: entry_inv_def)
  from k(2) have "length (concat (map enc (take k ins))) = length (concat (map enc ins))"
    by (simp add: at ent entry_frame_def ins(1))
  from enc_offsets_inj [OF k(1) this] have kk: "k = length ins" .
  have pr: "vm_program vm = p"
    using inv by (simp add: entry_inv_def)
  have fr: "vm_frames vm = [entry_frame entry ins (length ins)]"
    by (simp add: at ent last_frame)
  show "vm_stack vm = []"
    using k(3) by (simp add: kk h)
  show st: "step vm = Inl (VMRuntimeError ''call stack underflow'',
                           set_ip (int (length (code c1)) + 4) vm)"
    using k(3) by (intro at_call pr fr) (simp add: kk)
  have "vm_frames vm \<noteq> []"
    by (simp add: at)
  then have "steps 1 vm = step vm"
    by (rule steps_1)
  then have "run_prefix (n + 1) p = step vm"
    by (simp only: run_prefix_add reach then_do_def sum.case)
  then have "run_program ((n + 1) + fuel) p
               = Some (Inl (VMRuntimeError ''call stack underflow'',
                            set_ip (int (length (code c1)) + 4) vm))"
    by (simp only: run_program_prefix st sum.case)
  then show "run_program (Suc n + fuel) p
           = Some (Inl (VMRuntimeError ''call stack underflow'',
                        set_ip (int (length (code c1)) + 4) vm))"
    by simp
qed

lemma literal_globals_code:
  assumes res: "resolve prog = Inr r" and lit: "literal_values (rp_globals r) = Some vs"
  shows "\<exists>inits. compile_global_inits r (rp_globals r) empty_chunk = Inr inits \<and>
           code inits = literal_inits_code 0 (length vs) \<and> constants inits = vs"
proof -
  have len: "length vs = length (rp_globals r)"
    using lit by (rule literal_values_length)
  have "map (binding_index \<circ> gv_binding) (rp_globals r)
          = map (\<lambda>k. 0 + int k) [0..<length (rp_globals r)]"
    unfolding resolve_effect(1) [OF res] length_global_variables
    by (rule index_global_variables)
  then have "\<forall>k < length (rp_globals r).
               map (binding_index \<circ> gv_binding) (rp_globals r) ! k
                 = map (\<lambda>k. 0 + int k) [0..<length (rp_globals r)] ! k"
    by simp
  then have bs: "\<forall>k < length (rp_globals r).
                   binding_index (gv_binding (rp_globals r ! k)) = 0 + int k"
    by simp
  have "int (length (constants empty_chunk)) = 0"
    by (simp add: empty_chunk_def)
  from compile_literal_inits [OF lit bs this, of r] show ?thesis
    by (auto simp: empty_chunk_def len)
qed

lemma compile_global_inits_Cons:
  assumes "compile_expr r (vd_initializer (gv_decl g)) c = Inr c1"
  shows "compile_global_inits r (g # gs) c =
           compile_global_inits r gs
             (c1\<lparr>code := code c1 @ [opcode_value STORE_GLOBAL]
                              @ u16_bytes (binding_index (gv_binding g)),
                   lines := lines c1 @ replicate 3 (vd_line (gv_decl g))\<rparr>)"
  using assms
  by (simp add: emit_store_global_def emit_def emit_u16_def write_u16_bytes chunk_write_def
        numeral_eq_Suc)

lemma return_then_halt:
  assumes fs: "vm_frames vm = [\<lparr>cf_function = f, cf_ip = ip, cf_stack_base = 0\<rparr>, fr]"
    and ret: "code_at vm [opcode_value RET]"
    and ip: "0 \<le> ip"
    and tail: "take 2 (drop (nat ip) (code (bf_chunk f))) = [opcode_value POP, opcode_value HALT]"
    and st: "vm_stack vm = st @ [v]"
    and base: "cf_stack_base fr = 0"
  shows "steps 3 vm = Inr (vm\<lparr>vm_stack := [], vm_frames := []\<rparr>)"
proof -
  let ?e = "\<lparr>cf_function = f, cf_ip = ip, cf_stack_base = 0\<rparr>"
  let ?vm1 = "vm\<lparr>vm_stack := [v], vm_frames := [?e]\<rparr>"
  have cur: "cur_frame vm = fr"
    by (simp add: cur_frame_def fs)
  have "step vm = exec_op RET (set_ip (cf_ip (cur_frame vm) + 1) vm)"
    by (rule step_fetch [OF ret])
  also have "\<dots> = Inr ?vm1"
    using st base
    by (simp add: return_op_def frames_set_ip_eq fs cur then_do_def pop_def py_del_from_def Let_def
          set_ip_def)
  finally have s1: "step vm = Inr ?vm1" .
  have "code_at ?vm1 [opcode_value POP, opcode_value HALT]"
    using ip tail by (simp add: code_at_def cur_frame_def numeral_2_eq_2)
  moreover have "vm_stack ?vm1 = [] @ [v]"
    by simp
  ultimately have "steps 2 ?vm1 = Inr (?vm1\<lparr>vm_stack := [], vm_frames := []\<rparr>)"
    by (rule pop_then_halt)
  then have s2: "steps 2 ?vm1 = Inr (vm\<lparr>vm_stack := [], vm_frames := []\<rparr>)"
    by simp
  have three: "(3 :: nat) = 1 + 2"
    by simp
  have "steps 1 vm = step vm"
    by (rule steps_1) (simp add: fs)
  then show ?thesis
    unfolding three by (simp only: steps_add s1 then_do_def sum.case s2)
qed




end
